theory Spec2Isabelle
  imports Main "HOL-Library.Word"
begin

unbundle bit_operations_syntax

section \<open>The ring buffer (src/ringbuf/ringbuf.h)\<close>

subsection \<open>Data model\<close>

type_synonym u8 = "8 word"
type_synonym u16 = "16 word"
type_synonym u32 = "32 word"
type_synonym u64 = "64 word"
type_synonym u128 = "128 word"

text \<open>
  \<^verbatim>\<open>struct ringbuf_file\<close>: the header that is mapped into every process, followed by the
  word array \<^verbatim>\<open>data[]\<close>. The lock and the three \<^verbatim>\<open>double\<close> fields (\<^verbatim>\<open>tmin\<close>,
  \<^verbatim>\<open>tmax\<close>, \<^verbatim>\<open>timeout\<close>) take no part in the cursor arithmetic or in the copy path and
  are left out. All cursors are \<^verbatim>\<open>uint32_t\<close>, so arithmetic on them wraps at \<open>2 ^ 32\<close>.
\<close>

record ringbuf_file =
  version :: u64
  first_seq :: u64
  num_words :: u32
  wrap :: bool
  prod_head :: u32
  prod_tail :: u32
  cons_head :: u32
  cons_tail :: u32
  num_allocs :: u32
  data :: "u32 list"

text \<open>\<^verbatim>\<open>struct ringbuf_tx\<close>: a reservation, as handed out by the two alloc functions.\<close>

record ringbuf_tx =
  record_start :: u32
  "next" :: u32
  seen :: u32

subsection \<open>Cursor arithmetic\<close>

text \<open>\<^verbatim>\<open>ringbuf_file_num_entries\<close>: the number of words currently stored.\<close>

definition ringbuf_file_num_entries :: "ringbuf_file \<Rightarrow> u32 \<Rightarrow> u32 \<Rightarrow> u32" where
  "ringbuf_file_num_entries rbf prod_tail' cons_head' =
     (if prod_tail' \<ge> cons_head' then prod_tail' - cons_head'
      else (prod_tail' + num_words rbf) - cons_head')"

text \<open>\<^verbatim>\<open>ringbuf_file_num_free\<close>: conversely, the number of words free.\<close>

definition ringbuf_file_num_free :: "ringbuf_file \<Rightarrow> u32 \<Rightarrow> u32 \<Rightarrow> u32" where
  "ringbuf_file_num_free rbf cons_tail' prod_head' =
     (if cons_tail' > prod_head' then cons_tail' - prod_head' - 1
      else (cons_tail' + num_words rbf) - prod_head' - 1)"

subsection \<open>Bounded dequeue\<close>

text \<open>
  Memory accesses that leave the arrays the C code is given are undefined behaviour there;
  the model makes them a value.
\<close>

datatype rb_fault = ReadOutsideData | WriteOutsideBuffer

text \<open>
  Modelled from the spec: \<^verbatim>\<open>ringbuf_dequeue_alloc\<close> is only declared in ringbuf.h
  (\<^verbatim>\<open>extern ssize_t ringbuf_dequeue_alloc(struct ringbuf *, struct ringbuf_tx *)\<close>), its body
  is not part of the sources at hand. The design document describes it as: if the channel
  is empty (producer-tail equals consumer-head) return the no-data signal without touching a
  cursor; otherwise read the length prefix of the next record, advance consumer-head past
  the record, and return the transaction describing the readable span. Cursors are taken
  modulo the capacity. The size is given in bytes, the unit in which \<^verbatim>\<open>ringbuf_dequeue\<close>
  hands it to \<^verbatim>\<open>memcpy\<close> and compares it with \<^verbatim>\<open>max_size\<close>. On the no-data path the
  caller's transaction is left as it was.
\<close>

definition ringbuf_dequeue_alloc ::
  "ringbuf_file \<Rightarrow> ringbuf_tx \<Rightarrow> rb_fault + (int \<times> ringbuf_tx \<times> ringbuf_file)" where
  "ringbuf_dequeue_alloc rbf tx =
     (if prod_tail rbf = cons_head rbf then Inr (- 1, tx, rbf)
      else if unat (cons_head rbf) \<ge> length (data rbf) then Inl ReadOutsideData
      else
        let len = data rbf ! unat (cons_head rbf);
            start = (cons_head rbf + 1) mod num_words rbf;
            nxt = (start + len) mod num_words rbf
        in Inr (4 * uint len,
                \<lparr>record_start = start, next = nxt, seen = cons_head rbf\<rparr>,
                rbf\<lparr>cons_head := nxt\<rparr>))"

text \<open>
  Modelled from the spec: \<^verbatim>\<open>ringbuf_dequeue_commit\<close> is only declared in ringbuf.h. The
  design document describes it as advancing consumer-tail past the transaction's span, which
  is what gives the space back to the producers.
\<close>

definition ringbuf_dequeue_commit :: "ringbuf_file \<Rightarrow> ringbuf_tx \<Rightarrow> ringbuf_file" where
  "ringbuf_dequeue_commit rbf tx = rbf\<lparr>cons_tail := next tx\<rparr>"

text \<open>
  \<^verbatim>\<open>memcpy(dst, src + off, sz)\<close> between two arrays of 32-bit words, \<open>sz\<close> counted in
  bytes: whole words are copied, and a remainder of one to three bytes replaces the low
  bytes of the next destination word (little-endian layout).
\<close>

definition merge_bytes :: "nat \<Rightarrow> u32 \<Rightarrow> u32 \<Rightarrow> u32" where
  "merge_bytes r src dst = (src AND mask (8 * r)) OR (dst AND NOT (mask (8 * r)))"

definition memcpy_words :: "u32 list \<Rightarrow> u32 list \<Rightarrow> nat \<Rightarrow> nat \<Rightarrow> rb_fault + u32 list" where
  "memcpy_words dst src off sz =
     (let n = sz div 4; r = sz mod 4; w = n + (if r = 0 then 0 else 1)
      in if off + w > length src then Inl ReadOutsideData
         else if w > length dst then Inl WriteOutsideBuffer
         else Inr (take n (drop off src)
                   @ (if r = 0 then [] else [merge_bytes r (src ! (off + n)) (dst ! n)])
                   @ drop w dst))"

text \<open>
  \<^verbatim>\<open>ringbuf_dequeue\<close> (ringbuf.h, inline): reserve, check the size against the caller's
  buffer, copy out, commit. The result is the returned \<^verbatim>\<open>ssize_t\<close>, the caller's buffer
  and the channel as the call leaves them. The local \<^verbatim>\<open>tx\<close> is uninitialised in C and
  never read before \<^verbatim>\<open>ringbuf_dequeue_alloc\<close> fills it; it is passed in as \<open>tx0\<close>.
\<close>

definition ringbuf_dequeue ::
  "ringbuf_tx \<Rightarrow> ringbuf_file \<Rightarrow> u32 list \<Rightarrow> nat \<Rightarrow> rb_fault + (int \<times> u32 list \<times> ringbuf_file)" where
  "ringbuf_dequeue tx0 rbf buf max_size =
     (case ringbuf_dequeue_alloc rbf tx0 of
        Inl f \<Rightarrow> Inl f
      | Inr (sz, tx, rbf1) \<Rightarrow>
          if sz < 0 then Inr (sz, buf, rbf1)
          else if nat sz > max_size then Inr (- 1, buf, rbf1)
          else (case memcpy_words buf (data rbf1) (unat (record_start tx)) (nat sz) of
                  Inl f \<Rightarrow> Inl f
                | Inr buf' \<Rightarrow> Inr (sz, buf', ringbuf_dequeue_commit rbf1 tx)))"

text \<open>
  A channel of 16 words holding one committed record of three payload words behind its
  length prefix, nothing in flight; and a transaction with all fields zero.
\<close>

definition rbf_one_record :: ringbuf_file where
  "rbf_one_record =
     \<lparr>version = 0, first_seq = 0, num_words = 16, wrap = False,
      prod_head = 4, prod_tail = 4, cons_head = 0, cons_tail = 0, num_allocs = 1,
      data = [3, 10, 20, 30, 0, 0, 0, 0, 0, 0, 0, 0, 0, 0, 0, 0]\<rparr>"

definition tx_zero :: ringbuf_tx where
  "tx_zero = \<lparr>record_start = 0, next = 0, seen = 0\<rparr>"

definition rbf_after_reserve :: ringbuf_file where
  "rbf_after_reserve =
     (case ringbuf_dequeue_alloc rbf_one_record tx_zero of
        Inr (sz, tx, rbf1) \<Rightarrow> rbf1 | Inl f \<Rightarrow> rbf_one_record)"

definition no_reservation_in_flight :: "ringbuf_file \<Rightarrow> bool" where
  "no_reservation_in_flight rbf \<longleftrightarrow>
     prod_head rbf = prod_tail rbf \<and> cons_head rbf = cons_tail rbf"


section \<open>The tuple codec (rmadmin/serValue.cpp)\<close>

subsection \<open>Schema and values\<close>

text \<open>
  Modelled from the spec: the enumeration \<^verbatim>\<open>ValueType\<close> is declared in confValue.h, which
  is not part of the sources at hand. Its members are the tags that serValue.cpp names: the
  cases of the switch in \<^verbatim>\<open>unserialize\<close>, and \<^verbatim>\<open>AnyType\<close> and \<^verbatim>\<open>EmptyType\<close>, the tags
  given to \<^verbatim>\<open>Null\<close> and \<^verbatim>\<open>Error\<close> values.
\<close>

datatype ValueType =
    EmptyType | FloatType | StringType | BoolType | AnyType
  | U8Type | U16Type | U32Type | U64Type | U128Type
  | I8Type | I16Type | I32Type | I64Type | I128Type
  | EthType | Ipv4Type | Ipv6Type | IpType
  | Cidrv4Type | Cidrv6Type | CidrType
  | TupleType | VecType | ListType | RecordType

text \<open>
  Modelled from the spec: \<^verbatim>\<open>conf::RamenType\<close> and its subclasses \<^verbatim>\<open>RamenTypeTuple\<close>,
  \<^verbatim>\<open>RamenTypeVec\<close> and \<^verbatim>\<open>RamenTypeRecord\<close> are declared in confValue.h, which is not part of
  the sources at hand. The schema is a tree; every node has a tag (\<^verbatim>\<open>type\<close>) and a
  \<^verbatim>\<open>nullable\<close> flag; a tuple has an ordered list of children (\<^verbatim>\<open>fields\<close>), a vector a
  dimension and one child type (\<^verbatim>\<open>dim\<close>, \<^verbatim>\<open>subType\<close>), a record a list of named children
  (\<^verbatim>\<open>fields\<close>) and a serialization order (\<^verbatim>\<open>serOrder\<close>), a list of indices into the
  fields. The constructor is the dynamic class of the node, which \<^verbatim>\<open>unserialize\<close> tests
  with \<^verbatim>\<open>dynamic_pointer_cast\<close> independently of the tag.
\<close>

datatype RamenType =
    RamenTypeScalar ValueType bool
  | RamenTypeTuple ValueType bool "RamenType list"
  | RamenTypeVec ValueType bool nat RamenType
  | RamenTypeRecord ValueType bool "(string \<times> RamenType) list" "nat list"


fun type :: "RamenType \<Rightarrow> ValueType" where
  "type (RamenTypeScalar ty nl) = ty"
| "type (RamenTypeTuple ty nl fs) = ty"
| "type (RamenTypeVec ty nl d sub) = ty"
| "type (RamenTypeRecord ty nl fs order) = ty"

fun nullable :: "RamenType \<Rightarrow> bool" where
  "nullable (RamenTypeScalar ty nl) = nl"
| "nullable (RamenTypeTuple ty nl fs) = nl"
| "nullable (RamenTypeVec ty nl d sub) = nl"
| "nullable (RamenTypeRecord ty nl fs order) = nl"

text \<open>
  The decoded values: one constructor per subclass of \<^verbatim>\<open>ser::Value\<close> built in
  serValue.cpp. Scalars keep the bits that were read (the signed variants are read with
  \<open>sint\<close>, a float is kept as the 64 bits of its \<^verbatim>\<open>double\<close>). A \<^verbatim>\<open>Record\<close> is a vector of
  pairs of a name and a pointer that starts as \<^verbatim>\<open>nullptr\<close>, here \<open>None\<close>.
\<close>

datatype Value =
    Null
  | Error string
  | Float u64
  | String "u8 list"
  | Bool bool
  | U8 u8 | U16 u16 | U32 u32 | U64 u64 | U128 u128
  | I8 u8 | I16 u16 | I32 u32 | I64 u64 | I128 u128
  | Eth u64 | Ipv4 u64 | Ipv6 u128
  | Tuple "Value list"
  | Vec "Value list"
  | Record "(string \<times> Value option) list"


text \<open>\<^verbatim>\<open>Value::type\<close>, as each constructor in serValue.cpp sets it.\<close>

fun valueType :: "Value \<Rightarrow> ValueType" where
  "valueType Null = AnyType"
| "valueType (Error errMsg) = EmptyType"
| "valueType (Float v) = FloatType"
| "valueType (String v) = StringType"
| "valueType (Bool v) = BoolType"
| "valueType (U8 v) = U8Type"
| "valueType (U16 v) = U16Type"
| "valueType (U32 v) = U32Type"
| "valueType (U64 v) = U64Type"
| "valueType (U128 v) = U128Type"
| "valueType (I8 v) = I8Type"
| "valueType (I16 v) = I16Type"
| "valueType (I32 v) = I32Type"
| "valueType (I64 v) = I64Type"
| "valueType (I128 v) = I128Type"
| "valueType (Eth v) = EthType"
| "valueType (Ipv4 v) = Ipv4Type"
| "valueType (Ipv6 v) = Ipv6Type"
| "valueType (Tuple fieldValues) = TupleType"
| "valueType (Vec vs) = VecType"
| "valueType (Record fieldValues) = RecordType"

text \<open>\<^verbatim>\<open>Value::operator==\<close> and \<^verbatim>\<open>Value::operator!=\<close> of the base class.\<close>

definition Value_eq :: "Value \<Rightarrow> Value \<Rightarrow> bool" where
  "Value_eq this other \<longleftrightarrow> valueType other = valueType this"

definition Value_neq :: "Value \<Rightarrow> Value \<Rightarrow> bool" where
  "Value_neq this other \<longleftrightarrow> \<not> Value_eq this other"

subsection \<open>Reading the word span\<close>

text \<open>
  \<^verbatim>\<open>unserialize\<close> is given a cursor \<^verbatim>\<open>start\<close> and a limit \<^verbatim>\<open>max\<close>, two pointers into an
  array of 32-bit words. Here the array is a list, the pointers are indices into it, and
  every read goes through \<open>read_word\<close>, which turns a read at or past the limit (or outside
  the array) into a fault instead of a value: what is undefined behaviour in C is a result
  of the model. A failed \<^verbatim>\<open>assert\<close> and an index outside a \<^verbatim>\<open>std::vector\<close> are faults
  too. Byte addresses count from the start of the array, in little-endian order.

  The list stands for the memory from a 16-byte boundary on, so that the word at index \<open>i\<close>
  lies on such a boundary exactly when \<open>i mod 4 = 0\<close>. Nothing is lost by this: a span
  that begins one, two or three words after a boundary is a list with that many leading
  words and a cursor that starts behind them. A load through a \<^verbatim>\<open>uint128_t\<close> pointer at
  a cursor that is not on a 16-byte boundary is undefined, and traps where the compiler
  uses an aligned vector move; it is the fault \<open>MisalignedRead\<close>. The 64-bit loads are
  ordinary loads of the x86 target (the one the cache flush in ringbuf.h is written for),
  which take any word-aligned cursor.
\<close>

datatype fault =
  ReadPastMax | ReadOutsideSpan | MisalignedRead | AssertionFailed | IndexOutOfRange

definition read_word :: "u32 list \<Rightarrow> nat \<Rightarrow> nat \<Rightarrow> fault + u32" where
  "read_word ws max' i =
     (if max' \<le> i then Inl ReadPastMax
      else if length ws \<le> i then Inl ReadOutsideSpan
      else Inr (ws ! i))"

definition read_byte :: "u32 list \<Rightarrow> nat \<Rightarrow> nat \<Rightarrow> fault + u8" where
  "read_byte ws max' a =
     (case read_word ws max' (a div 4) of
        Inl f \<Rightarrow> Inl f
      | Inr w \<Rightarrow> Inr (ucast (drop_bit (8 * (a mod 4)) w)))"

fun read_bytes :: "u32 list \<Rightarrow> nat \<Rightarrow> nat \<Rightarrow> nat \<Rightarrow> fault + u8 list" where
  "read_bytes ws max' a 0 = Inr []"
| "read_bytes ws max' a (Suc n) =
     (case read_byte ws max' a of
        Inl f \<Rightarrow> Inl f
      | Inr b \<Rightarrow>
          (case read_bytes ws max' (a + 1) n of
             Inl f \<Rightarrow> Inl f
           | Inr bs \<Rightarrow> Inr (b # bs)))"

definition read_u64 :: "u32 list \<Rightarrow> nat \<Rightarrow> nat \<Rightarrow> fault + u64" where
  "read_u64 ws max' i =
     (case read_word ws max' i of
        Inl f \<Rightarrow> Inl f
      | Inr w0 \<Rightarrow>
          (case read_word ws max' (i + 1) of
             Inl f \<Rightarrow> Inl f
           | Inr w1 \<Rightarrow> Inr (push_bit 32 (ucast w1) OR ucast w0)))"

definition read_u128 :: "u32 list \<Rightarrow> nat \<Rightarrow> nat \<Rightarrow> fault + u128" where
  "read_u128 ws max' i =
     (case read_u64 ws max' i of
        Inl f \<Rightarrow> Inl f
      | Inr lo \<Rightarrow>
          (case read_u64 ws max' (i + 2) of
             Inl f \<Rightarrow> Inl f
           | Inr hi \<Rightarrow> Inr (push_bit 64 (ucast hi) OR ucast lo)))"

text \<open>\<^verbatim>\<open>roundUpWords\<close>: the number of words required to store that many bytes.\<close>

definition roundUpWords :: "nat \<Rightarrow> nat" where
  "roundUpWords sz = drop_bit 2 (sz + 3)"

subsection \<open>The constructors of the scalar values\<close>

text \<open>
  Each constructor reads its value at the cursor and advances the cursor (a reference
  parameter in C++); none of them checks the limit. The result is the value and the new
  cursor. \<^verbatim>\<open>Float\<close> copies \<^verbatim>\<open>sizeof(double)\<close> bytes, the 64-bit and the Ethernet and IPv4
  constructors dereference a \<^verbatim>\<open>uint64_t\<close> pointer, the 128-bit and IPv6 ones a
  \<^verbatim>\<open>uint128_t\<close> pointer, which asks for a cursor on a 16-byte boundary; \<^verbatim>\<open>String\<close>
  reads \<open>len\<close> bytes.
\<close>

definition new_Float :: "u32 list \<Rightarrow> nat \<Rightarrow> nat \<Rightarrow> fault + (Value \<times> nat)" where
  "new_Float ws max' start =
     (case read_u64 ws max' start of Inl f \<Rightarrow> Inl f | Inr v \<Rightarrow> Inr (Float v, start + 2))"

definition new_Bool :: "u32 list \<Rightarrow> nat \<Rightarrow> nat \<Rightarrow> fault + (Value \<times> nat)" where
  "new_Bool ws max' start =
     (case read_word ws max' start of Inl f \<Rightarrow> Inl f | Inr w \<Rightarrow> Inr (Bool (w \<noteq> 0), start + 1))"

definition new_String :: "u32 list \<Rightarrow> nat \<Rightarrow> nat \<Rightarrow> nat \<Rightarrow> fault + (Value \<times> nat)" where
  "new_String ws max' start len =
     (case read_bytes ws max' (4 * start) len of
        Inl f \<Rightarrow> Inl f
      | Inr v \<Rightarrow> Inr (String v, start + roundUpWords len))"

definition new_U8 :: "u32 list \<Rightarrow> nat \<Rightarrow> nat \<Rightarrow> fault + (Value \<times> nat)" where
  "new_U8 ws max' start =
     (case read_byte ws max' (4 * start) of Inl f \<Rightarrow> Inl f | Inr v \<Rightarrow> Inr (U8 v, start + 1))"

definition new_U16 :: "u32 list \<Rightarrow> nat \<Rightarrow> nat \<Rightarrow> fault + (Value \<times> nat)" where
  "new_U16 ws max' start =
     (case read_word ws max' start of Inl f \<Rightarrow> Inl f | Inr w \<Rightarrow> Inr (U16 (ucast w), start + 1))"

definition new_U32 :: "u32 list \<Rightarrow> nat \<Rightarrow> nat \<Rightarrow> fault + (Value \<times> nat)" where
  "new_U32 ws max' start =
     (case read_word ws max' start of Inl f \<Rightarrow> Inl f | Inr w \<Rightarrow> Inr (U32 w, start + 1))"

definition new_U64 :: "u32 list \<Rightarrow> nat \<Rightarrow> nat \<Rightarrow> fault + (Value \<times> nat)" where
  "new_U64 ws max' start =
     (case read_u64 ws max' start of Inl f \<Rightarrow> Inl f | Inr v \<Rightarrow> Inr (U64 v, start + 2))"

definition new_U128 :: "u32 list \<Rightarrow> nat \<Rightarrow> nat \<Rightarrow> fault + (Value \<times> nat)" where
  "new_U128 ws max' start =
     (if start mod 4 \<noteq> 0 then Inl MisalignedRead
      else case read_u128 ws max' start of
             Inl f \<Rightarrow> Inl f
           | Inr v \<Rightarrow> Inr (U128 v, start + 4))"

definition new_I8 :: "u32 list \<Rightarrow> nat \<Rightarrow> nat \<Rightarrow> fault + (Value \<times> nat)" where
  "new_I8 ws max' start =
     (case read_byte ws max' (4 * start) of Inl f \<Rightarrow> Inl f | Inr v \<Rightarrow> Inr (I8 v, start + 1))"

definition new_I16 :: "u32 list \<Rightarrow> nat \<Rightarrow> nat \<Rightarrow> fault + (Value \<times> nat)" where
  "new_I16 ws max' start =
     (case read_word ws max' start of Inl f \<Rightarrow> Inl f | Inr w \<Rightarrow> Inr (I16 (ucast w), start + 1))"

definition new_I32 :: "u32 list \<Rightarrow> nat \<Rightarrow> nat \<Rightarrow> fault + (Value \<times> nat)" where
  "new_I32 ws max' start =
     (case read_word ws max' start of Inl f \<Rightarrow> Inl f | Inr w \<Rightarrow> Inr (I32 w, start + 1))"

definition new_I64 :: "u32 list \<Rightarrow> nat \<Rightarrow> nat \<Rightarrow> fault + (Value \<times> nat)" where
  "new_I64 ws max' start =
     (case read_u64 ws max' start of Inl f \<Rightarrow> Inl f | Inr v \<Rightarrow> Inr (I64 v, start + 2))"

definition new_I128 :: "u32 list \<Rightarrow> nat \<Rightarrow> nat \<Rightarrow> fault + (Value \<times> nat)" where
  "new_I128 ws max' start =
     (if start mod 4 \<noteq> 0 then Inl MisalignedRead
      else case read_u128 ws max' start of
             Inl f \<Rightarrow> Inl f
           | Inr v \<Rightarrow> Inr (I128 v, start + 4))"

definition new_Eth :: "u32 list \<Rightarrow> nat \<Rightarrow> nat \<Rightarrow> fault + (Value \<times> nat)" where
  "new_Eth ws max' start =
     (case read_u64 ws max' start of Inl f \<Rightarrow> Inl f | Inr v \<Rightarrow> Inr (Eth v, start + 2))"

definition new_Ipv4 :: "u32 list \<Rightarrow> nat \<Rightarrow> nat \<Rightarrow> fault + (Value \<times> nat)" where
  "new_Ipv4 ws max' start =
     (case read_u64 ws max' start of Inl f \<Rightarrow> Inl f | Inr v \<Rightarrow> Inr (Ipv4 v, start + 2))"

definition new_Ipv6 :: "u32 list \<Rightarrow> nat \<Rightarrow> nat \<Rightarrow> fault + (Value \<times> nat)" where
  "new_Ipv6 ws max' start =
     (if start mod 4 \<noteq> 0 then Inl MisalignedRead
      else case read_u128 ws max' start of
             Inl f \<Rightarrow> Inl f
           | Inr v \<Rightarrow> Inr (Ipv6 v, start + 4))"

subsection \<open>The nullmask\<close>

text \<open>
  \<^verbatim>\<open>bitSet(nullmask, null_i)\<close>: bit \<open>null_i\<close> of the bytes at \<open>nullmask\<close>, a byte
  address.
\<close>

fun bitSet :: "u32 list \<Rightarrow> nat \<Rightarrow> nat \<Rightarrow> nat \<Rightarrow> fault + bool" where
  "bitSet ws max' nullmask null_i =
     (if null_i \<ge> 8 then bitSet ws max' (nullmask + 1) (null_i - 8)
      else (case read_byte ws max' nullmask of
              Inl f \<Rightarrow> Inl f
            | Inr b \<Rightarrow> Inr (b AND push_bit null_i 1 \<noteq> 0)))"

declare bitSet.simps [simp del]

text \<open>
  Modelled from the spec: \<^verbatim>\<open>RamenType::nullmaskWidth\<close> is a member of the schema classes
  declared in confValue.h, not part of the sources at hand. The design document sizes the
  nullmask of a composite to the number of its nullable immediate children; the
  \<^verbatim>\<open>topLevel\<close> argument is not mentioned there and has no influence here.
\<close>

fun nullmaskWidth :: "RamenType \<Rightarrow> bool \<Rightarrow> nat" where
  "nullmaskWidth (RamenTypeScalar ty nl) topLevel = 0"
| "nullmaskWidth (RamenTypeTuple ty nl fs) topLevel = length (filter nullable fs)"
| "nullmaskWidth (RamenTypeVec ty nl d sub) topLevel = (if nullable sub then d else 0)"
| "nullmaskWidth (RamenTypeRecord ty nl fs order) topLevel =
     length (filter (\<lambda>f. nullable (snd f)) fs)"

text \<open>\<^verbatim>\<open>QString::number\<close> on an unsigned length: its decimal digits.\<close>

definition digit_char :: "nat \<Rightarrow> char" where
  "digit_char d = char_of (d + 48)"

function QString_number :: "nat \<Rightarrow> string" where
  "QString_number n =
     (if 10 \<le> n then QString_number (n div 10) @ [digit_char (n mod 10)]
      else [digit_char n])"
  by pat_completeness auto
termination
  by (relation "measure (\<lambda>n. n)") auto

declare QString_number.simps [simp del]


subsection \<open>unserialize\<close>

text \<open>A child of a record is smaller than the list of its fields.\<close>

lemma size_field_le:
  "i < length fs \<Longrightarrow> size (snd (fs ! i)) \<le> size_list (size_prod (\<lambda>x. 0) size) fs"
proof (induction fs arbitrary: i)
  case Nil
  then show ?case by simp
next
  case (Cons f fs)
  show ?case
  proof (cases i)
    case 0
    then show ?thesis by (cases f) simp
  next
    case (Suc j)
    with Cons.prems have "j < length fs" by simp
    from Cons.IH [OF this] Suc show ?thesis by simp
  qed
qed

text \<open>
  \<^verbatim>\<open>unserialize(type, start, max, topLevel)\<close>, with its three loops over the children of a
  tuple, a vector and a record as functions of their own. The result is the value and the
  cursor as the call leaves it. The recursive calls pass no \<^verbatim>\<open>topLevel\<close> argument; its
  default, declared in serValue.h, is taken to be \<open>False\<close>. The debugging output at
  the head of the function prints the words from the cursor up to the limit and nothing
  else; it is not part of the result.
\<close>

function unserialize ::
    "u32 list \<Rightarrow> nat \<Rightarrow> RamenType \<Rightarrow> nat \<Rightarrow> bool \<Rightarrow> fault + (Value \<times> nat)"
  and unserialize_tuple_fields ::
    "u32 list \<Rightarrow> nat \<Rightarrow> nat \<Rightarrow> nat \<Rightarrow> RamenType list \<Rightarrow> nat \<Rightarrow> fault + (Value list \<times> nat)"
  and unserialize_vec_values ::
    "u32 list \<Rightarrow> nat \<Rightarrow> nat \<Rightarrow> nat \<Rightarrow> nat \<Rightarrow> RamenType \<Rightarrow> nat \<Rightarrow> fault + (Value list \<times> nat)"
  and unserialize_record_fields ::
    "u32 list \<Rightarrow> nat \<Rightarrow> nat \<Rightarrow> nat \<Rightarrow> (string \<times> RamenType) list \<Rightarrow> nat list
       \<Rightarrow> (string \<times> Value option) list \<Rightarrow> nat
       \<Rightarrow> fault + ((string \<times> Value option) list \<times> nat)"
where
  "unserialize ws max' t start topLevel =
     (if topLevel \<and> nullable t then Inl AssertionFailed
      else case type t of
        FloatType \<Rightarrow>
          if start + 2 > max' then Inr (Error ''Cannot unserialize float'', start)
          else new_Float ws max' start
      | StringType \<Rightarrow>
          if start + 1 > max' then Inr (Error ''Cannot unserialize string'', start)
          else (case read_word ws max' start of
                  Inl f \<Rightarrow> Inl f
                | Inr w \<Rightarrow>
                    let len = unat w; start1 = start + 1; wordLen = roundUpWords len
                    in if start1 + wordLen > max'
                       then Inr (Error (''Cannot unserialize of length '' @ QString_number len),
                                 start1)
                       else new_String ws max' start1 len)
      | BoolType \<Rightarrow>
          if start + 1 > max' then Inr (Error ''Cannot unserialize bool'', start)
          else new_Bool ws max' start
      | U8Type \<Rightarrow>
          if start + 1 > max' then Inr (Error ''Cannot unserialize u8'', start)
          else new_U8 ws max' start
      | U16Type \<Rightarrow>
          if start + 1 > max' then Inr (Error ''Cannot unserialize u16'', start)
          else new_U16 ws max' start
      | U32Type \<Rightarrow>
          if start + 1 > max' then Inr (Error ''Cannot unserialize u32'', start)
          else new_U32 ws max' start
      | I8Type \<Rightarrow>
          if start + 1 > max' then Inr (Error ''Cannot unserialize i8'', start)
          else new_I8 ws max' start
      | I16Type \<Rightarrow>
          if start + 1 > max' then Inr (Error ''Cannot unserialize i16'', start)
          else new_I16 ws max' start
      | I32Type \<Rightarrow>
          if start + 1 > max' then Inr (Error ''Cannot unserialize i32'', start)
          else new_I32 ws max' start
      | Ipv4Type \<Rightarrow>
          if start + 1 > max' then Inr (Error ''Cannot unserialize ipv4'', start)
          else new_Ipv4 ws max' start
      | U64Type \<Rightarrow>
          if start + 2 > max' then Inr (Error ''Cannot unserialize u64'', start)
          else new_U64 ws max' start
      | I64Type \<Rightarrow>
          if start + 2 > max' then Inr (Error ''Cannot unserialize i64'', start)
          else new_I64 ws max' start
      | EthType \<Rightarrow>
          if start + 2 > max' then Inr (Error ''Cannot unserialize eth'', start)
          else new_Eth ws max' start
      | U128Type \<Rightarrow>
          if start + 4 > max' then Inr (Error ''Cannot unserialize u128'', start)
          else new_U128 ws max' start
      | I128Type \<Rightarrow>
          if start + 4 > max' then Inr (Error ''Cannot unserialize i128'', start)
          else new_I128 ws max' start
      | Ipv6Type \<Rightarrow>
          if start + 4 > max' then Inr (Error ''Cannot unserialize ipv6'', start)
          else new_Ipv6 ws max' start
      | IpType \<Rightarrow> Inr (Error ''TODO: unserialize'', start)
      | Cidrv4Type \<Rightarrow> Inr (Error ''TODO: unserialize'', start)
      | Cidrv6Type \<Rightarrow> Inr (Error ''TODO: unserialize'', start)
      | CidrType \<Rightarrow> Inr (Error ''TODO: unserialize'', start)
      | TupleType \<Rightarrow>
          (case t of
             RamenTypeTuple ty nl fields' \<Rightarrow>
               let nullmask = 4 * start;
                   start1 = start + roundUpWords (nullmaskWidth t topLevel)
               in if start1 > max' then Inr (Error ''Invalid start/max'', start1)
                  else (case unserialize_tuple_fields ws max' nullmask 0 fields' start1 of
                          Inl f \<Rightarrow> Inl f
                        | Inr (fieldValues, start2) \<Rightarrow> Inr (Tuple fieldValues, start2))
           | _ \<Rightarrow> Inr (Error ''Cannot unserialize: Invalid tag for tuple'', start))
      | VecType \<Rightarrow>
          (case t of
             RamenTypeVec ty nl dim subType \<Rightarrow>
               let nullmask = 4 * start;
                   start1 = start + roundUpWords (nullmaskWidth t topLevel)
               in if start1 > max' then Inr (Error ''Invalid start/max'', start1)
                  else (case unserialize_vec_values ws max' nullmask 0 dim subType start1 of
                          Inl f \<Rightarrow> Inl f
                        | Inr (values', start2) \<Rightarrow> Inr (Vec values', start2))
           | _ \<Rightarrow> Inr (Error ''Cannot unserialize: Invalid tag for vector'', start))
      | ListType \<Rightarrow> Inr (Error ''TODO: unserialize lists'', start)
      | RecordType \<Rightarrow>
          (case t of
             RamenTypeRecord ty nl fields' serOrder \<Rightarrow>
               let nullmask = 4 * start;
                   start1 = start + roundUpWords ((nullmaskWidth t topLevel + 7) div 8)
               in if start1 > max' then Inr (Error ''Invalid start/max'', start1)
                  else (case unserialize_record_fields ws max' nullmask 0 fields' serOrder
                               (replicate (length fields') ([], None)) start1 of
                          Inl f \<Rightarrow> Inl f
                        | Inr (fieldValues, start2) \<Rightarrow> Inr (Record fieldValues, start2))
           | _ \<Rightarrow> Inr (Error ''Cannot unserialize: Invalid tag for record'', start))
      | _ \<Rightarrow> Inr (Error ''Cannot unserialize: unknown tag'', start))"
| "unserialize_tuple_fields ws max' nullmask null_i [] start = Inr ([], start)"
| "unserialize_tuple_fields ws max' nullmask null_i (subType # rest) start =
     (if nullable subType then
        (case bitSet ws max' nullmask null_i of
           Inl f \<Rightarrow> Inl f
         | Inr b \<Rightarrow>
             (case (if b then unserialize ws max' subType start False else Inr (Null, start)) of
                Inl f \<Rightarrow> Inl f
              | Inr (v, start1) \<Rightarrow>
                  (case unserialize_tuple_fields ws max' nullmask (null_i + 1) rest start1 of
                     Inl f \<Rightarrow> Inl f
                   | Inr (vs, start2) \<Rightarrow> Inr (v # vs, start2))))
      else
        (case unserialize ws max' subType start False of
           Inl f \<Rightarrow> Inl f
         | Inr (v, start1) \<Rightarrow>
             (case unserialize_tuple_fields ws max' nullmask null_i rest start1 of
                Inl f \<Rightarrow> Inl f
              | Inr (vs, start2) \<Rightarrow> Inr (v # vs, start2))))"
| "unserialize_vec_values ws max' nullmask null_i 0 subType start = Inr ([], start)"
| "unserialize_vec_values ws max' nullmask null_i (Suc n) subType start =
     (if nullable subType then
        (case bitSet ws max' nullmask null_i of
           Inl f \<Rightarrow> Inl f
         | Inr b \<Rightarrow>
             (case (if b then unserialize ws max' subType start False else Inr (Null, start)) of
                Inl f \<Rightarrow> Inl f
              | Inr (v, start1) \<Rightarrow>
                  (case unserialize_vec_values ws max' nullmask (null_i + 1) n subType start1 of
                     Inl f \<Rightarrow> Inl f
                   | Inr (vs, start2) \<Rightarrow> Inr (v # vs, start2))))
      else
        (case unserialize ws max' subType start False of
           Inl f \<Rightarrow> Inl f
         | Inr (v, start1) \<Rightarrow>
             (case unserialize_vec_values ws max' nullmask null_i n subType start1 of
                Inl f \<Rightarrow> Inl f
              | Inr (vs, start2) \<Rightarrow> Inr (v # vs, start2))))"
| "unserialize_record_fields ws max' nullmask null_i fields' [] fieldValues start =
     Inr (fieldValues, start)"
| "unserialize_record_fields ws max' nullmask null_i fields' (fieldIdx # rest) fieldValues start =
     (if fieldIdx \<ge> length fields' then Inl IndexOutOfRange
      else
        let fieldName = fst (fields' ! fieldIdx);
            subType = snd (fields' ! fieldIdx)
        in if nullable subType then
             (case bitSet ws max' nullmask null_i of
                Inl f \<Rightarrow> Inl f
              | Inr b \<Rightarrow>
                  (case (if b then unserialize ws max' subType start False
                         else Inr (Null, start)) of
                     Inl f \<Rightarrow> Inl f
                   | Inr (v, start1) \<Rightarrow>
                       unserialize_record_fields ws max' nullmask (null_i + 1) fields' rest
                         (fieldValues[fieldIdx := (fieldName, Some v)]) start1))
           else
             (case unserialize ws max' subType start False of
                Inl f \<Rightarrow> Inl f
              | Inr (v, start1) \<Rightarrow>
                  unserialize_record_fields ws max' nullmask null_i fields' rest
                    (fieldValues[fieldIdx := (fieldName, Some v)]) start1))"
  by pat_completeness auto
termination
  apply (relation "inv_image (less_than <*lex*> less_than)
     (\<lambda>x. case x of
        Inl (Inl (ws, max', t, start, topLevel)) \<Rightarrow> (2 * size t, 0)
      | Inl (Inr (ws, max', nullmask, null_i, ts, start)) \<Rightarrow> (2 * size_list size ts + 1, 0)
      | Inr (Inl (ws, max', nullmask, null_i, n, subType, start)) \<Rightarrow> (2 * size subType + 1, n)
      | Inr (Inr (ws, max', nullmask, null_i, fs, order, fvs, start)) \<Rightarrow>
          (2 * size_list (size_prod (\<lambda>x. 0) size) fs + 1, length order))")
  apply simp_all
  apply (auto simp: not_le less_Suc_eq_le intro: size_field_le)
  done

declare unserialize.simps(1) [simp del]

subsection \<open>Word counts and child positions, as the design document gives them\<close>

text \<open>
  The number of words a scalar of each width class takes on the wire: one word for the
  types of at most 32 bits, two for floats (stored as a \<^verbatim>\<open>double\<close>), 64-bit integers,
  Ethernet and IPv4 addresses, four for 128-bit integers and IPv6 addresses.
\<close>

fun scalar_words :: "ValueType \<Rightarrow> nat option" where
  "scalar_words BoolType = Some 1"
| "scalar_words U8Type = Some 1"
| "scalar_words U16Type = Some 1"
| "scalar_words U32Type = Some 1"
| "scalar_words I8Type = Some 1"
| "scalar_words I16Type = Some 1"
| "scalar_words I32Type = Some 1"
| "scalar_words FloatType = Some 2"
| "scalar_words U64Type = Some 2"
| "scalar_words I64Type = Some 2"
| "scalar_words EthType = Some 2"
| "scalar_words Ipv4Type = Some 2"
| "scalar_words U128Type = Some 4"
| "scalar_words I128Type = Some 4"
| "scalar_words Ipv6Type = Some 4"
| "scalar_words ty = None"

text \<open>
  The children of a composite, decoded as the design document describes it: the children
  are visited in order; a nullable child tests the nullmask bit whose index is the child's
  position among the nullable children, that is the number of nullable children visited
  before it (\<open>earlier\<close> holds all children visited so far, nullable or not); a child whose
  bit is clear becomes \<^verbatim>\<open>Null\<close> and leaves the cursor where it is; every other child is
  decoded by \<open>unserialize\<close> at the cursor.
\<close>

fun decode_children ::
  "u32 list \<Rightarrow> nat \<Rightarrow> nat \<Rightarrow> RamenType list \<Rightarrow> RamenType list \<Rightarrow> nat
     \<Rightarrow> fault + (Value list \<times> nat)" where
  "decode_children ws max' nullmask earlier [] start = Inr ([], start)"
| "decode_children ws max' nullmask earlier (t # todo) start =
     (case (if nullable t then
              (case bitSet ws max' nullmask (length (filter nullable earlier)) of
                 Inl f \<Rightarrow> Inl f
               | Inr present \<Rightarrow>
                   if present then unserialize ws max' t start False else Inr (Null, start))
            else unserialize ws max' t start False) of
        Inl f \<Rightarrow> Inl f
      | Inr (v, start1) \<Rightarrow>
          (case decode_children ws max' nullmask (earlier @ [t]) todo start1 of
             Inl f \<Rightarrow> Inl f
           | Inr (vs, start2) \<Rightarrow> Inr (v # vs, start2)))"

text \<open>
  The output of a record, as the design document describes it: the values arrive in wire
  order, the \<open>k\<close>-th of them belongs to the field with the logical index \<open>order ! k\<close> and is
  stored at that index, together with the name the schema gives that field.
\<close>

fun place_fields ::
  "(string \<times> RamenType) list \<Rightarrow> nat list \<Rightarrow> Value list \<Rightarrow> (string \<times> Value option) list
     \<Rightarrow> (string \<times> Value option) list" where
  "place_fields fs (i # order) (v # vs) out = place_fields fs order vs (out[i := (fst (fs ! i), Some v)])"
| "place_fields fs order vs out = out"

text \<open>The types of the children of a record in wire order.\<close>

definition wire_types :: "(string \<times> RamenType) list \<Rightarrow> nat list \<Rightarrow> RamenType list" where
  "wire_types fs order = map (\<lambda>i. snd (fs ! i)) order"

subsection \<open>Example schemas\<close>

text \<open>
  A record with five fields, three of them nullable (\<open>a\<close>, \<open>b\<close>, \<open>c\<close>), mixed with two
  that are not; its children as a tuple; and the same three nullable children with the
  other two placed differently.
\<close>

definition example_fields :: "(string \<times> RamenType) list" where
  "example_fields =
     [(''a'', RamenTypeScalar U32Type True), (''x'', RamenTypeScalar U32Type False),
      (''b'', RamenTypeScalar U32Type True), (''c'', RamenTypeScalar U32Type True),
      (''y'', RamenTypeScalar U8Type False)]"

definition example_types :: "RamenType list" where
  "example_types = map snd example_fields"

definition example_types_shifted :: "RamenType list" where
  "example_types_shifted =
     [RamenTypeScalar U32Type False, RamenTypeScalar U8Type False,
      RamenTypeScalar U32Type True, RamenTypeScalar U32Type True,
      RamenTypeScalar U32Type True]"

definition five_nullable :: "(string \<times> RamenType) list" where
  "five_nullable =
     [(''a'', RamenTypeScalar U32Type True), (''b'', RamenTypeScalar U32Type True),
      (''c'', RamenTypeScalar U32Type True), (''d'', RamenTypeScalar U32Type True),
      (''e'', RamenTypeScalar U32Type True)]"

subsection \<open>Schemas that meet the contract of unserialize\<close>

text \<open>
  A schema is well formed when the serialization order of every record in it names valid
  field indices, each at most once. \<open>no_ipv4\<close> holds when no node carries the IPv4 tag.
  A result is within the limit when it is a value or the fault of a misaligned 128-bit
  load: no word at or past the limit was read, no index left its vector and no assertion
  failed.
\<close>

definition within_limit :: "fault + 'a \<Rightarrow> bool" where
  "within_limit r = (case r of Inl f \<Rightarrow> f = MisalignedRead | Inr x \<Rightarrow> True)"

fun well_formed :: "RamenType \<Rightarrow> bool" where
  "well_formed (RamenTypeScalar ty nl) = True"
| "well_formed (RamenTypeTuple ty nl ts) = (\<forall>t\<in>set ts. well_formed t)"
| "well_formed (RamenTypeVec ty nl d sub) = well_formed sub"
| "well_formed (RamenTypeRecord ty nl fs order) =
     (distinct order \<and> (\<forall>i\<in>set order. i < length fs) \<and> (\<forall>f\<in>set fs. well_formed (snd f)))"

fun no_ipv4 :: "RamenType \<Rightarrow> bool" where
  "no_ipv4 (RamenTypeScalar ty nl) = (ty \<noteq> Ipv4Type)"
| "no_ipv4 (RamenTypeTuple ty nl ts) = (ty \<noteq> Ipv4Type \<and> (\<forall>t\<in>set ts. no_ipv4 t))"
| "no_ipv4 (RamenTypeVec ty nl d sub) = (ty \<noteq> Ipv4Type \<and> no_ipv4 sub)"
| "no_ipv4 (RamenTypeRecord ty nl fs order) =
     (ty \<noteq> Ipv4Type \<and> (\<forall>f\<in>set fs. no_ipv4 (snd f)))"


section \<open>Properties of the ring buffer\<close>

subsection \<open>Cursor arithmetic without wrap-around\<close>

lemma entries_unat:
  assumes "pt < num_words rbf" "ch < num_words rbf"
  shows "unat (ringbuf_file_num_entries rbf pt ch) =
     (if unat ch \<le> unat pt then unat pt - unat ch
      else unat pt + unat (num_words rbf) - unat ch)"
  using assms unfolding ringbuf_file_num_entries_def
  apply (auto simp: word_le_nat_alt word_less_nat_alt unat_sub)
  apply unat_arith
  done

lemma free_unat:
  assumes "ct < num_words rbf" "ph < num_words rbf"
  shows "unat (ringbuf_file_num_free rbf ct ph) =
     (if unat ph < unat ct then unat ct - unat ph - 1
      else unat ct + unat (num_words rbf) - unat ph - 1)"
  using assms unfolding ringbuf_file_num_free_def
  apply (auto simp: word_le_nat_alt word_less_nat_alt unat_sub)
  apply unat_arith
  done

lemma pred_mod:
  fixes c n :: int
  assumes "0 \<le> c" "c < n"
  shows "(c - 1) mod n = (if c = 0 then n - 1 else c - 1)"
proof (cases "c = 0")
  case True
  have "(- 1) mod n = n - 1" using assms True
    by (simp add: zmod_minus1)
  then show ?thesis using True by simp
next
  case False
  then show ?thesis using assms by simp
qed


lemma rbf_after_reserve_eq: "rbf_after_reserve = rbf_one_record\<lparr>cons_head := 4\<rparr>"
  by (simp add: rbf_after_reserve_def ringbuf_dequeue_alloc_def rbf_one_record_def tx_zero_def)

lemma ringbuf_dequeue_too_large:
  assumes "ringbuf_dequeue_alloc rbf tx0 = Inr (sz, tx, rbf1)" "0 \<le> sz" "nat sz > max_size"
  shows "ringbuf_dequeue tx0 rbf buf max_size = Inr (- 1, buf, rbf1)"
  using assms by (simp add: ringbuf_dequeue_def)

subsection \<open>Claims about the ring buffer\<close>

text \<open>
  Claim C3. When the next readable record is larger than the caller's buffer,
  \<^verbatim>\<open>ringbuf_dequeue\<close> should return an error, copy nothing, and leave the channel as it
  found it. Evaluated on a channel holding one record of three words (12 bytes) with a
  buffer of 8 bytes: the call returns \<open>-1\<close> and the buffer is untouched, but consumer-head
  has moved from 0 to 4 while consumer-tail is still 0. The early return skips
  \<^verbatim>\<open>ringbuf_dequeue_commit\<close> and nothing undoes the reservation.
\<close>

theorem ringbuf_dequeue_too_small_keeps_reservation:
  "ringbuf_dequeue tx_zero rbf_one_record [0, 0] 8
     = Inr (- 1, [0, 0], rbf_one_record\<lparr>cons_head := 4\<rparr>)
   \<and> cons_head rbf_one_record = cons_tail rbf_one_record
   \<and> rbf_one_record\<lparr>cons_head := 4\<rparr> \<noteq> rbf_one_record"
  by (simp add: ringbuf_dequeue_def ringbuf_dequeue_alloc_def rbf_one_record_def tx_zero_def)

text \<open>
  Claim C4, as stated: in every reachable channel state
  \<open>free(cons_tail, prod_head) + used(prod_tail, cons_head) + 1\<close> is the capacity. It fails
  between a reservation and its commit: after \<^verbatim>\<open>ringbuf_dequeue_alloc\<close> on the one-record
  channel the sum is 12 while the capacity is 16 (the four reserved words are neither free
  nor stored).
\<close>

theorem ringbuf_gap_identity_in_flight_counterexample:
  "unat (ringbuf_file_num_free rbf_after_reserve
           (cons_tail rbf_after_reserve) (prod_head rbf_after_reserve))
   + unat (ringbuf_file_num_entries rbf_after_reserve
           (prod_tail rbf_after_reserve) (cons_head rbf_after_reserve)) + 1
   \<noteq> unat (num_words rbf_after_reserve)"
  by (simp add: rbf_after_reserve_eq ringbuf_file_num_free_def ringbuf_file_num_entries_def
        rbf_one_record_def)

text \<open>
  Claim C4, amended: in every channel state whose cursors are below the capacity and in
  which no reservation is in flight (producer-head equals producer-tail and consumer-head
  equals consumer-tail), the number of free words, the number of stored words and the one
  reserved word add up to the capacity, with no wrap-around in the sum.
\<close>

theorem ringbuf_gap_identity_quiescent:
  assumes "prod_head rbf < num_words rbf" "cons_tail rbf < num_words rbf"
    and "no_reservation_in_flight rbf"
  shows "unat (ringbuf_file_num_free rbf (cons_tail rbf) (prod_head rbf))
       + unat (ringbuf_file_num_entries rbf (prod_tail rbf) (cons_head rbf)) + 1
       = unat (num_words rbf)"
proof -
  have b: "unat (prod_head rbf) < unat (num_words rbf)"
      "unat (cons_tail rbf) < unat (num_words rbf)"
    using assms by (simp_all add: word_less_nat_alt)
  have q: "prod_tail rbf = prod_head rbf" "cons_head rbf = cons_tail rbf"
    using assms(3) by (simp_all add: no_reservation_in_flight_def)
  show ?thesis
    using b assms(1,2) unfolding q by (auto simp: entries_unat free_unat)
qed

theorem ringbuf_gap_identity_quiescent_witness:
  "prod_head rbf_one_record < num_words rbf_one_record
   \<and> cons_tail rbf_one_record < num_words rbf_one_record
   \<and> no_reservation_in_flight rbf_one_record
   \<and> unat (ringbuf_file_num_free rbf_one_record
              (cons_tail rbf_one_record) (prod_head rbf_one_record))
       + unat (ringbuf_file_num_entries rbf_one_record
              (prod_tail rbf_one_record) (cons_head rbf_one_record)) + 1
       = unat (num_words rbf_one_record)"
proof -
  have h: "prod_head rbf_one_record < num_words rbf_one_record"
      "cons_tail rbf_one_record < num_words rbf_one_record"
      "no_reservation_in_flight rbf_one_record"
    by (simp_all add: rbf_one_record_def no_reservation_in_flight_def)
  from h ringbuf_gap_identity_quiescent [OF h] show ?thesis by simp
qed

text \<open>
  Claim C5. For cursors below the capacity: the channel is empty
  (\<^verbatim>\<open>ringbuf_file_num_entries\<close> is 0) exactly when producer-tail equals consumer-head; it is
  full (\<^verbatim>\<open>ringbuf_file_num_free\<close> is 0) exactly when producer-head is congruent to
  consumer-tail minus one modulo the capacity; and the number of stored words never exceeds
  the capacity minus one.
\<close>

theorem ringbuf_empty_full_iff:
  assumes "prod_tail rbf < num_words rbf" "cons_head rbf < num_words rbf"
      "prod_head rbf < num_words rbf" "cons_tail rbf < num_words rbf"
  shows "(ringbuf_file_num_entries rbf (prod_tail rbf) (cons_head rbf) = 0
            \<longleftrightarrow> prod_tail rbf = cons_head rbf)
    \<and> (ringbuf_file_num_free rbf (cons_tail rbf) (prod_head rbf) = 0
            \<longleftrightarrow> uint (prod_head rbf) mod uint (num_words rbf)
                 = (uint (cons_tail rbf) - 1) mod uint (num_words rbf))
    \<and> unat (ringbuf_file_num_entries rbf (prod_tail rbf) (cons_head rbf))
          \<le> unat (num_words rbf) - 1"
proof -
  let ?N = "num_words rbf"
  let ?E = "ringbuf_file_num_entries rbf (prod_tail rbf) (cons_head rbf)"
  let ?F = "ringbuf_file_num_free rbf (cons_tail rbf) (prod_head rbf)"
  have e: "unat ?E =
     (if unat (cons_head rbf) \<le> unat (prod_tail rbf)
      then unat (prod_tail rbf) - unat (cons_head rbf)
      else unat (prod_tail rbf) + unat ?N - unat (cons_head rbf))"
    using assms by (simp add: entries_unat)
  have f: "unat ?F =
     (if unat (prod_head rbf) < unat (cons_tail rbf)
      then unat (cons_tail rbf) - unat (prod_head rbf) - 1
      else unat (cons_tail rbf) + unat ?N - unat (prod_head rbf) - 1)"
    using assms by (simp add: free_unat)
  have b: "unat (prod_tail rbf) < unat ?N" "unat (cons_head rbf) < unat ?N"
     "unat (prod_head rbf) < unat ?N" "unat (cons_tail rbf) < unat ?N"
    using assms by (simp_all add: word_less_nat_alt)
  have empty: "?E = 0 \<longleftrightarrow> prod_tail rbf = cons_head rbf"
  proof -
    have "?E = 0 \<longleftrightarrow> unat ?E = 0"
      by (simp add: unat_eq_0)
    also have "\<dots> \<longleftrightarrow> unat (prod_tail rbf) = unat (cons_head rbf)"
      using b unfolding e by auto
    also have "\<dots> \<longleftrightarrow> prod_tail rbf = cons_head rbf"
      by (simp add: word_unat_eq_iff)
    finally show ?thesis .
  qed
  have bound: "unat ?E \<le> unat ?N - 1"
    using b unfolding e by auto
  have full: "?F = 0 \<longleftrightarrow>
      uint (prod_head rbf) mod uint ?N = (uint (cons_tail rbf) - 1) mod uint ?N"
  proof -
    have ub: "0 \<le> uint (cons_tail rbf)" "uint (cons_tail rbf) < uint ?N"
        "0 \<le> uint (prod_head rbf)" "uint (prod_head rbf) < uint ?N"
      using assms by (simp_all add: word_less_def)
    have u: "uint (cons_tail rbf) = int (unat (cons_tail rbf))"
        "uint (prod_head rbf) = int (unat (prod_head rbf))"
        "uint ?N = int (unat ?N)"
      by (rule uint_nat)+
    have "?F = 0 \<longleftrightarrow> unat ?F = 0"
      by (simp add: unat_eq_0)
    also have "\<dots> \<longleftrightarrow>
        (if unat (cons_tail rbf) = 0 then unat (prod_head rbf) = unat ?N - 1
         else unat (prod_head rbf) = unat (cons_tail rbf) - 1)"
      using b unfolding f by auto
    also have "\<dots> \<longleftrightarrow>
        (if uint (cons_tail rbf) = 0 then uint (prod_head rbf) = uint ?N - 1
         else uint (prod_head rbf) = uint (cons_tail rbf) - 1)"
      unfolding u using b by (simp only: split: if_splits) linarith
    also have "\<dots> \<longleftrightarrow>
        uint (prod_head rbf) mod uint ?N = (uint (cons_tail rbf) - 1) mod uint ?N"
      using ub by (simp add: pred_mod)
    finally show ?thesis .
  qed
  from empty full bound show ?thesis by blast
qed

theorem ringbuf_empty_full_iff_witness:
  "prod_tail rbf_one_record < num_words rbf_one_record
   \<and> cons_head rbf_one_record < num_words rbf_one_record
   \<and> prod_head rbf_one_record < num_words rbf_one_record
   \<and> cons_tail rbf_one_record < num_words rbf_one_record
   \<and> ringbuf_file_num_entries rbf_one_record
         (prod_tail rbf_one_record) (cons_head rbf_one_record) \<noteq> 0
   \<and> ringbuf_file_num_free rbf_one_record
         (cons_tail rbf_one_record) (prod_head rbf_one_record) \<noteq> 0
   \<and> unat (ringbuf_file_num_entries rbf_one_record
         (prod_tail rbf_one_record) (cons_head rbf_one_record)) \<le> 15"
proof -
  have h: "prod_tail rbf_one_record < num_words rbf_one_record"
      "cons_head rbf_one_record < num_words rbf_one_record"
      "prod_head rbf_one_record < num_words rbf_one_record"
      "cons_tail rbf_one_record < num_words rbf_one_record"
    by (simp_all add: rbf_one_record_def)
  from h ringbuf_empty_full_iff [OF h] show ?thesis
    by (simp add: rbf_one_record_def)
qed

section \<open>Properties of the tuple codec\<close>

subsection \<open>Reads inside the limit succeed\<close>

lemma read_word_ok:
  "i < max' \<Longrightarrow> max' \<le> length ws \<Longrightarrow> read_word ws max' i = Inr (ws ! i)"
  by (simp add: read_word_def)

lemma read_u64_ok:
  "i + 2 \<le> max' \<Longrightarrow> max' \<le> length ws \<Longrightarrow>
   read_u64 ws max' i = Inr (push_bit 32 (ucast (ws ! (i + 1))) OR ucast (ws ! i))"
  by (simp add: read_u64_def read_word_ok)

lemma read_u128_ok:
  "i + 4 \<le> max' \<Longrightarrow> max' \<le> length ws \<Longrightarrow> \<exists>v. read_u128 ws max' i = Inr v"
  by (simp add: read_u128_def read_u64_ok)

lemma read_byte_ok:
  "a < 4 * max' \<Longrightarrow> max' \<le> length ws \<Longrightarrow> \<exists>b. read_byte ws max' a = Inr b"
  by (simp add: read_byte_def read_word_ok)

lemma read_bytes_ok:
  "a + n \<le> 4 * max' \<Longrightarrow> max' \<le> length ws \<Longrightarrow>
   \<exists>bs. read_bytes ws max' a n = Inr bs \<and> length bs = n"
proof (induction n arbitrary: a)
  case 0
  then show ?case by simp
next
  case (Suc n)
  from Suc.prems obtain b where b: "read_byte ws max' a = Inr b"
    using read_byte_ok [of a max' ws] by auto
  from Suc.prems Suc.IH [of "Suc a"] obtain bs
    where bs: "read_bytes ws max' (Suc a) n = Inr bs" "length bs = n"
    by auto
  show ?case by (simp add: b bs)
qed

lemma roundUpWords_div: "roundUpWords sz = (sz + 3) div 4"
  by (simp add: roundUpWords_def drop_bit_eq_div)

lemma scalar_decode_ok:
  assumes "scalar_words (type t) = Some k" "\<not> (topLevel \<and> nullable t)"
    "start + k \<le> max'" "max' \<le> length ws" "k = 4 \<longrightarrow> start mod 4 = 0"
  shows "\<exists>v. unserialize ws max' t start topLevel = Inr (v, start + k) \<and> valueType v = type t"
proof -
  have w1: "start + 1 \<le> max' \<Longrightarrow> read_word ws max' start = Inr (ws ! start)"
    using assms(4) by (simp add: read_word_ok)
  have b1: "start + 1 \<le> max' \<Longrightarrow> \<exists>b. read_byte ws max' (4 * start) = Inr b"
    using assms(4) read_byte_ok [of "4 * start" max' ws] by simp
  have w2: "start + 2 \<le> max' \<Longrightarrow> \<exists>v. read_u64 ws max' start = Inr v"
    using assms(4) by (simp add: read_u64_ok)
  have w4: "start + 4 \<le> max' \<Longrightarrow> \<exists>v. read_u128 ws max' start = Inr v"
    using assms(4) by (simp add: read_u128_ok)
  show ?thesis
    using assms(1,2,3,5) w1 b1 w2 w4
    by (cases "type t")
       (auto simp: unserialize.simps new_Float_def new_Bool_def new_U8_def new_U16_def new_U32_def
          new_U64_def new_U128_def new_I8_def new_I16_def new_I32_def new_I64_def new_I128_def
          new_Eth_def new_Ipv4_def new_Ipv6_def)
qed

lemma string_decode_ok:
  assumes "type t = StringType" "\<not> (topLevel \<and> nullable t)"
    "start < max'" "max' \<le> length ws"
    "start + 1 + roundUpWords (unat (ws ! start)) \<le> max'"
  shows "\<exists>bs. unserialize ws max' t start topLevel
            = Inr (String bs, start + 1 + roundUpWords (unat (ws ! start)))
          \<and> length bs = unat (ws ! start)"
proof -
  let ?len = "unat (ws ! start)"
  have "4 * (start + 1) + ?len \<le> 4 * max'"
    using assms(5) by (simp add: roundUpWords_div)
  from read_bytes_ok [OF this assms(4)] obtain bs
    where bs: "read_bytes ws max' (4 * (start + 1)) ?len = Inr bs" "length bs = ?len"
    by auto
  have w: "read_word ws max' start = Inr (ws ! start)"
    using assms(3,4) by (simp add: read_word_ok)
  show ?thesis
    using assms(1,2,3,5) bs w
    by (simp add: unserialize.simps new_String_def Let_def)
qed

subsection \<open>The three loops against the described decoding of children\<close>

lemma tuple_fields_decode_children:
  "unserialize_tuple_fields ws max' nullmask (length (filter nullable earlier)) ts start
     = decode_children ws max' nullmask earlier ts start"
proof (induction ts arbitrary: earlier start)
  case Nil
  show ?case by simp
next
  case (Cons t ts)
  have nxt: "nullable t \<Longrightarrow>
      unserialize_tuple_fields ws max' nullmask (Suc (length (filter nullable earlier))) ts s
        = decode_children ws max' nullmask (earlier @ [t]) ts s" for s
    using Cons.IH [of "earlier @ [t]" s] by simp
  have same: "\<not> nullable t \<Longrightarrow>
      unserialize_tuple_fields ws max' nullmask (length (filter nullable earlier)) ts s
        = decode_children ws max' nullmask (earlier @ [t]) ts s" for s
    using Cons.IH [of "earlier @ [t]" s] by simp
  show ?case
    by (simp add: nxt same split: sum.splits prod.splits)
qed

lemma vec_values_decode_children:
  "unserialize_vec_values ws max' nullmask (length (filter nullable earlier)) n sub start
     = decode_children ws max' nullmask earlier (replicate n sub) start"
proof (induction n arbitrary: earlier start)
  case 0
  show ?case by simp
next
  case (Suc n)
  have nxt: "nullable sub \<Longrightarrow>
      unserialize_vec_values ws max' nullmask (Suc (length (filter nullable earlier))) n sub s
        = decode_children ws max' nullmask (earlier @ [sub]) (replicate n sub) s" for s
    using Suc.IH [of "earlier @ [sub]" s] by simp
  have same: "\<not> nullable sub \<Longrightarrow>
      unserialize_vec_values ws max' nullmask (length (filter nullable earlier)) n sub s
        = decode_children ws max' nullmask (earlier @ [sub]) (replicate n sub) s" for s
    using Suc.IH [of "earlier @ [sub]" s] by simp
  show ?case
    by (simp add: nxt same split: sum.splits prod.splits)
qed

lemma record_fields_decode_children:
  assumes "\<forall>i\<in>set order. i < length fs"
  shows "unserialize_record_fields ws max' nullmask (length (filter nullable earlier))
           fs order out start
     = (case decode_children ws max' nullmask earlier (wire_types fs order) start of
          Inl f \<Rightarrow> Inl f
        | Inr (vs, s) \<Rightarrow> Inr (place_fields fs order vs out, s))"
  using assms
proof (induction order arbitrary: earlier out start)
  case Nil
  show ?case by (simp add: wire_types_def)
next
  case (Cons i order)
  let ?t = "snd (fs ! i)"
  from Cons.prems have i: "i < length fs" and rest: "\<forall>i\<in>set order. i < length fs"
    by simp_all
  have nxt: "nullable ?t \<Longrightarrow>
      unserialize_record_fields ws max' nullmask (Suc (length (filter nullable earlier)))
          fs order o' s
        = (case decode_children ws max' nullmask (earlier @ [?t]) (wire_types fs order) s of
             Inl f \<Rightarrow> Inl f
           | Inr (vs, s) \<Rightarrow> Inr (place_fields fs order vs o', s))" for s o'
    using Cons.IH [OF rest, of "earlier @ [?t]" o' s] by simp
  have same: "\<not> nullable ?t \<Longrightarrow>
      unserialize_record_fields ws max' nullmask (length (filter nullable earlier))
          fs order o' s
        = (case decode_children ws max' nullmask (earlier @ [?t]) (wire_types fs order) s of
             Inl f \<Rightarrow> Inl f
           | Inr (vs, s) \<Rightarrow> Inr (place_fields fs order vs o', s))" for s o'
    using Cons.IH [OF rest, of "earlier @ [?t]" o' s] by simp
  have wt: "wire_types fs (i # order) = ?t # wire_types fs order"
    by (simp add: wire_types_def)
  show ?case
    using i by (simp add: nxt same wt Let_def split: sum.splits prod.splits)
qed

lemma decode_children_length:
  "decode_children ws max' nullmask earlier ts start = Inr (vs, s) \<Longrightarrow> length vs = length ts"
proof (induction ts arbitrary: earlier start vs s)
  case Nil
  then show ?case by simp
next
  case (Cons t ts)
  from Cons.prems obtain v s1 vs' where
    rest: "decode_children ws max' nullmask (earlier @ [t]) ts s1 = Inr (vs', s)"
    and vs: "vs = v # vs'"
    by (auto split: sum.splits prod.splits if_splits)
  from Cons.IH [OF rest] vs show ?case by simp
qed

subsection \<open>Placing the fields of a record\<close>

lemma place_fields_length: "length (place_fields fs order vs out) = length out"
  by (induction fs order vs out rule: place_fields.induct) simp_all

lemma place_fields_other:
  "j \<notin> set order \<Longrightarrow> place_fields fs order vs out ! j = out ! j"
  by (induction fs order vs out rule: place_fields.induct) auto

lemma place_fields_nth:
  assumes "distinct order" "length vs = length order"
    "\<forall>i\<in>set order. i < length out" "k < length order"
  shows "place_fields fs order vs out ! (order ! k) = (fst (fs ! (order ! k)), Some (vs ! k))"
  using assms
proof (induction order arbitrary: vs out k)
  case Nil
  then show ?case by simp
next
  case (Cons i order)
  from Cons.prems(2) obtain v vs' where vs: "vs = v # vs'"
    by (cases vs) simp_all
  show ?case
  proof (cases k)
    case 0
    from Cons.prems have "i \<notin> set order" "i < length out" by simp_all
    then show ?thesis using 0 vs by (simp add: place_fields_other)
  next
    case (Suc j)
    from Cons.prems Suc vs have "distinct order" "length vs' = length order"
      "\<forall>x\<in>set order. x < length (out[i := (fst (fs ! i), Some v)])" "j < length order"
      by simp_all
    from Cons.IH [OF this] Suc vs show ?thesis by simp
  qed
qed

lemma place_fields_names:
  assumes "distinct order" "set order = {..<length fs}" "length vs = length order"
    "length out = length fs"
  shows "map fst (place_fields fs order vs out) = map fst fs"
proof (rule nth_equalityI)
  show "length (map fst (place_fields fs order vs out)) = length (map fst fs)"
    using assms(4) by (simp add: place_fields_length)
next
  fix j assume "j < length (map fst (place_fields fs order vs out))"
  then have j: "j < length fs" using assms(4) by (simp add: place_fields_length)
  with assms(2) have "j \<in> set order" by simp
  then obtain k where k: "k < length order" "order ! k = j"
    by (auto simp: in_set_conv_nth)
  have "\<forall>i\<in>set order. i < length out" using assms(2,4) by simp
  from place_fields_nth [OF assms(1) assms(3) this k(1), of fs] k(2)
  have "place_fields fs order vs out ! j = (fst (fs ! j), Some (vs ! k))" by simp
  then show "map fst (place_fields fs order vs out) ! j = map fst fs ! j"
    using j assms(4) by (simp add: place_fields_length)
qed

lemma unserialize_Record:
  assumes "\<not> (topLevel \<and> nl)"
  shows "unserialize ws max' (RamenTypeRecord RecordType nl fs order) start topLevel =
     (let start1 = start + roundUpWords ((length (filter (\<lambda>f. nullable (snd f)) fs) + 7) div 8)
      in if start1 > max' then Inr (Error ''Invalid start/max'', start1)
         else (case unserialize_record_fields ws max' (4 * start) 0 fs order
                       (replicate (length fs) ([], None)) start1 of
                 Inl f \<Rightarrow> Inl f
               | Inr (fieldValues, start2) \<Rightarrow> Inr (Record fieldValues, start2)))"
  using assms by (auto simp: unserialize.simps Let_def)

lemma unserialize_Tuple:
  assumes "\<not> (topLevel \<and> nl)"
  shows "unserialize ws max' (RamenTypeTuple TupleType nl ts) start topLevel =
     (let start1 = start + roundUpWords (length (filter nullable ts))
      in if start1 > max' then Inr (Error ''Invalid start/max'', start1)
         else (case unserialize_tuple_fields ws max' (4 * start) 0 ts start1 of
                 Inl f \<Rightarrow> Inl f
               | Inr (fieldValues, start2) \<Rightarrow> Inr (Tuple fieldValues, start2)))"
  using assms by (auto simp: unserialize.simps Let_def)

lemma unserialize_Vec:
  assumes "\<not> (topLevel \<and> nl)"
  shows "unserialize ws max' (RamenTypeVec VecType nl d sub) start topLevel =
     (let start1 = start + roundUpWords (if nullable sub then d else 0)
      in if start1 > max' then Inr (Error ''Invalid start/max'', start1)
         else (case unserialize_vec_values ws max' (4 * start) 0 d sub start1 of
                 Inl f \<Rightarrow> Inl f
               | Inr (vs, start2) \<Rightarrow> Inr (Vec vs, start2)))"
  using assms by (auto simp: unserialize.simps Let_def)

subsection \<open>Every case but IPv4 keeps to the limit\<close>

text \<open>
  On a well-formed schema without IPv4 nodes, \<^verbatim>\<open>unserialize\<close> never reads at or past the
  limit, whatever the words, the cursor and the limit are: it returns a value, possibly an
  \<^verbatim>\<open>Error\<close>, unless a 128-bit load meets a cursor off its boundary. The nullmask bits
  it tests lie in the words it has skipped for the nullmask.
\<close>

lemma within_limit_Inr [simp]: "within_limit (Inr x)"
  by (simp add: within_limit_def)

lemma within_limit_Inl [simp]: "within_limit (Inl f) \<longleftrightarrow> f = MisalignedRead"
  by (simp add: within_limit_def)

lemma bitSet_ok:
  "nullmask + null_i div 8 < 4 * max' \<Longrightarrow> max' \<le> length ws \<Longrightarrow>
   \<exists>b. bitSet ws max' nullmask null_i = Inr b"
proof (induction ws max' nullmask null_i rule: bitSet.induct)
  case (1 ws max' nullmask null_i)
  show ?case
  proof (cases "null_i \<ge> 8")
    case True
    then have "nullmask + 1 + (null_i - 8) div 8 = nullmask + null_i div 8"
      by (simp add: le_div_geq)
    with "1.prems" have "nullmask + 1 + (null_i - 8) div 8 < 4 * max'" by simp
    from "1.IH" [OF True this "1.prems"(2)] True show ?thesis
      by (subst bitSet.simps) simp
  next
    case False
    with "1.prems" have "nullmask < 4 * max'" by simp
    from read_byte_ok [OF this "1.prems"(2)] False show ?thesis
      by (subst bitSet.simps) auto
  qed
qed

lemma decode_children_ok:
  assumes "\<forall>t\<in>set todo. \<forall>start. within_limit (unserialize ws max' t start False)"
    "max' \<le> length ws"
    "8 * nullmask + length (filter nullable (earlier @ todo)) \<le> 32 * max'"
  shows "within_limit (decode_children ws max' nullmask earlier todo start)"
  using assms
proof (induction todo arbitrary: earlier start)
  case Nil
  show ?case by simp
next
  case (Cons t todo)
  from Cons.prems(1) have t: "within_limit (unserialize ws max' t s False)" for s
    by simp
  from Cons.prems(1) have rest:
    "\<forall>t\<in>set todo. \<forall>start. within_limit (unserialize ws max' t start False)"
    by simp
  from Cons.prems(3) have
    "8 * nullmask + length (filter nullable ((earlier @ [t]) @ todo)) \<le> 32 * max'"
    by simp
  from Cons.IH [OF rest Cons.prems(2) this]
  have tail: "within_limit (decode_children ws max' nullmask (earlier @ [t]) todo s)" for s .
  let ?first = "if nullable t then
              (case bitSet ws max' nullmask (length (filter nullable earlier)) of
                 Inl f \<Rightarrow> Inl f
               | Inr present \<Rightarrow>
                   if present then unserialize ws max' t start False else Inr (Null, start))
            else unserialize ws max' t start False"
  have first: "within_limit ?first"
  proof (cases "nullable t")
    case False
    with t show ?thesis by simp
  next
    case True
    with Cons.prems(3) have "8 * nullmask + length (filter nullable earlier) < 32 * max'"
      by simp
    then have "nullmask + length (filter nullable earlier) div 8 < 4 * max'"
      by arith
    from bitSet_ok [OF this Cons.prems(2)] obtain b
      where "bitSet ws max' nullmask (length (filter nullable earlier)) = Inr b" by blast
    with t True show ?thesis by simp
  qed
  show ?case
  proof (cases ?first)
    case (Inl f)
    with first have "f = MisalignedRead" by simp
    with Inl show ?thesis by (simp del: bitSet.simps)
  next
    case (Inr p)
    obtain v s1 where p: "p = (v, s1)" by (cases p)
    from tail [of s1] Inr p show ?thesis
      by (cases "decode_children ws max' nullmask (earlier @ [t]) todo s1")
         (auto simp del: bitSet.simps)
  qed
qed

lemma scalar_tag_ok:
  assumes "type t \<noteq> TupleType" "type t \<noteq> VecType" "type t \<noteq> RecordType"
    "type t \<noteq> Ipv4Type" "\<not> (topLevel \<and> nullable t)" "max' \<le> length ws"
  shows "within_limit (unserialize ws max' t start topLevel)"
proof (cases "type t = StringType")
  case True
  show ?thesis
  proof (cases "start + 1 > max'")
    case True
    with \<open>type t = StringType\<close> assms(5) show ?thesis
      by (auto simp: unserialize.simps)
  next
    case False
    then have w: "read_word ws max' start = Inr (ws ! start)"
      using assms(6) by (simp add: read_word_ok)
    show ?thesis
    proof (cases "start + 1 + roundUpWords (unat (ws ! start)) > max'")
      case True
      with False w \<open>type t = StringType\<close> assms(5) show ?thesis
        by (auto simp: unserialize.simps Let_def)
    next
      case fits: False
      then have "4 * (start + 1) + unat (ws ! start) \<le> 4 * max'"
        by (simp add: roundUpWords_div)
      from read_bytes_ok [OF this assms(6)] obtain bs
        where "read_bytes ws max' (4 * (start + 1)) (unat (ws ! start)) = Inr bs" by blast
      with fits False w \<open>type t = StringType\<close> assms(5) show ?thesis
        by (auto simp: unserialize.simps Let_def new_String_def)
    qed
  qed
next
  case False
  have w1: "start + 1 \<le> max' \<Longrightarrow> read_word ws max' start = Inr (ws ! start)"
    using assms(6) by (simp add: read_word_ok)
  have b1: "start + 1 \<le> max' \<Longrightarrow> \<exists>b. read_byte ws max' (4 * start) = Inr b"
    using assms(6) read_byte_ok [of "4 * start" max' ws] by simp
  have w2: "start + 2 \<le> max' \<Longrightarrow> \<exists>v. read_u64 ws max' start = Inr v"
    using assms(6) by (simp add: read_u64_ok)
  have w4: "start + 4 \<le> max' \<Longrightarrow> \<exists>v. read_u128 ws max' start = Inr v"
    using assms(6) by (simp add: read_u128_ok)
  show ?thesis
    using assms(1-5) False w1 b1 w2 w4
    by (cases "type t")
       (auto simp: unserialize.simps new_Float_def new_Bool_def new_U8_def new_U16_def new_U32_def
          new_U64_def new_U128_def new_I8_def new_I16_def new_I32_def new_I64_def new_I128_def
          new_Eth_def new_Ipv6_def not_less)
qed

lemma wire_nullable_le:
  assumes "distinct order" "\<forall>i\<in>set order. i < length fs"
  shows "length (filter nullable (wire_types fs order))
           \<le> length (filter (\<lambda>f. nullable (snd f)) fs)"
proof -
  let ?P = "\<lambda>i. nullable (snd (fs ! i))"
  have "length (filter nullable (wire_types fs order)) = length (filter ?P order)"
    by (simp add: wire_types_def filter_map comp_def)
  also have "\<dots> = card ({i. ?P i} \<inter> set order)"
    using assms(1) by (simp add: distinct_length_filter)
  also have "\<dots> \<le> card {i. i < length fs \<and> ?P i}"
    using assms(2) by (intro card_mono) auto
  also have "\<dots> = length (filter (\<lambda>f. nullable (snd f)) fs)"
    by (simp add: length_filter_conv_card)
  finally show ?thesis .
qed

lemma nullmask_fits:
  "start + roundUpWords n \<le> max' \<Longrightarrow> 8 * (4 * start) + n \<le> 32 * max'"
  by (simp add: roundUpWords_div)

lemma nullmask_fits_bits:
  "start + roundUpWords ((n + 7) div 8) \<le> max' \<Longrightarrow> 8 * (4 * start) + n \<le> 32 * max'"
  by (simp add: roundUpWords_div)

lemma tuple_tag_mismatch:
  assumes "type t = TupleType" "\<forall>ty nl ts. t \<noteq> RamenTypeTuple ty nl ts"
    "\<not> (topLevel \<and> nullable t)"
  shows "unserialize ws max' t start topLevel
           = Inr (Error ''Cannot unserialize: Invalid tag for tuple'', start)"
  using assms by (cases t) (auto simp: unserialize.simps)

lemma vec_tag_mismatch:
  assumes "type t = VecType" "\<forall>ty nl d sub. t \<noteq> RamenTypeVec ty nl d sub"
    "\<not> (topLevel \<and> nullable t)"
  shows "unserialize ws max' t start topLevel
           = Inr (Error ''Cannot unserialize: Invalid tag for vector'', start)"
  using assms by (cases t) (auto simp: unserialize.simps)

lemma record_tag_mismatch:
  assumes "type t = RecordType" "\<forall>ty nl fs order. t \<noteq> RamenTypeRecord ty nl fs order"
    "\<not> (topLevel \<and> nullable t)"
  shows "unserialize ws max' t start topLevel
           = Inr (Error ''Cannot unserialize: Invalid tag for record'', start)"
  using assms by (cases t) (auto simp: unserialize.simps)

lemma not_composite_ok:
  assumes "\<forall>ty nl ts. t = RamenTypeTuple ty nl ts \<longrightarrow> ty \<noteq> TupleType"
    "\<forall>ty nl d sub. t = RamenTypeVec ty nl d sub \<longrightarrow> ty \<noteq> VecType"
    "\<forall>ty nl fs order. t = RamenTypeRecord ty nl fs order \<longrightarrow> ty \<noteq> RecordType"
    "type t \<noteq> Ipv4Type" "\<not> (topLevel \<and> nullable t)" "max' \<le> length ws"
  shows "within_limit (unserialize ws max' t start topLevel)"
proof -
  consider "type t = TupleType" | "type t = VecType" | "type t = RecordType"
    | "type t \<noteq> TupleType" "type t \<noteq> VecType" "type t \<noteq> RecordType"
    by blast
  then show ?thesis
  proof cases
    case 1
    with assms(1) have "\<forall>ty nl ts. t \<noteq> RamenTypeTuple ty nl ts" by auto
    from tuple_tag_mismatch [OF 1 this assms(5)] show ?thesis by simp
  next
    case 2
    with assms(2) have "\<forall>ty nl d sub. t \<noteq> RamenTypeVec ty nl d sub" by auto
    from vec_tag_mismatch [OF 2 this assms(5)] show ?thesis by simp
  next
    case 3
    with assms(3) have "\<forall>ty nl fs order. t \<noteq> RamenTypeRecord ty nl fs order" by auto
    from record_tag_mismatch [OF 3 this assms(5)] show ?thesis by simp
  next
    case 4
    from scalar_tag_ok [OF 4 assms(4,5,6)] show ?thesis .
  qed
qed

lemma within_limit_wrap:
  "within_limit r \<Longrightarrow> within_limit (case r of Inl f \<Rightarrow> Inl f | Inr (vs, s) \<Rightarrow> Inr (g vs, s))"
  by (cases r) auto

lemma unserialize_keeps_to_limit:
  assumes len: "max' \<le> length ws"
  shows "well_formed t \<Longrightarrow> no_ipv4 t \<Longrightarrow> \<not> (topLevel \<and> nullable t) \<Longrightarrow>
         within_limit (unserialize ws max' t start topLevel)"
proof (induction t arbitrary: start topLevel)
  case (RamenTypeScalar ty nl)
  then show ?case
    by (intro not_composite_ok [OF _ _ _ _ _ len]) simp_all
next
  case (RamenTypeTuple ty nl ts)
  show ?case
  proof (cases "ty = TupleType")
    case False
    with RamenTypeTuple.prems show ?thesis
      by (intro not_composite_ok [OF _ _ _ _ _ len]) simp_all
  next
    case True
    let ?n = "length (filter nullable ts)"
    let ?start1 = "start + roundUpWords ?n"
    from RamenTypeTuple.prems(3) have top: "\<not> (topLevel \<and> nl)" by simp
    have kids: "\<forall>t\<in>set ts. \<forall>start. within_limit (unserialize ws max' t start False)"
      using RamenTypeTuple.IH RamenTypeTuple.prems(1,2) by auto
    show ?thesis
    proof (cases "?start1 > max'")
      case over: True
      then show ?thesis
        unfolding True unserialize_Tuple [OF top] by (simp add: Let_def)
    next
      case fits: False
      then have "8 * (4 * start) + length (filter nullable ([] @ ts)) \<le> 32 * max'"
        using nullmask_fits [of start ?n max'] by simp
      from decode_children_ok [OF kids len this, of ?start1]
      have "within_limit (unserialize_tuple_fields ws max' (4 * start) 0 ts ?start1)"
        using tuple_fields_decode_children [of ws max' "4 * start" "[]" ts ?start1] by simp
      from within_limit_wrap [OF this, of Tuple] fits show ?thesis
        unfolding True unserialize_Tuple [OF top] by (simp add: Let_def)
    qed
  qed
next
  case (RamenTypeVec ty nl d sub)
  show ?case
  proof (cases "ty = VecType")
    case False
    with RamenTypeVec.prems show ?thesis
      by (intro not_composite_ok [OF _ _ _ _ _ len]) simp_all
  next
    case True
    let ?n = "if nullable sub then d else 0"
    let ?start1 = "start + roundUpWords ?n"
    from RamenTypeVec.prems(3) have top: "\<not> (topLevel \<and> nl)" by simp
    have kids: "\<forall>t\<in>set (replicate d sub).
        \<forall>start. within_limit (unserialize ws max' t start False)"
      using RamenTypeVec.IH RamenTypeVec.prems(1,2) by auto
    show ?thesis
    proof (cases "?start1 > max'")
      case over: True
      then show ?thesis
        unfolding True unserialize_Vec [OF top] by (simp add: Let_def)
    next
      case fits: False
      have "length (filter nullable (replicate d sub)) = ?n" by simp
      with fits have
        "8 * (4 * start) + length (filter nullable ([] @ replicate d sub)) \<le> 32 * max'"
        using nullmask_fits [of start ?n max'] by simp
      from decode_children_ok [OF kids len this, of ?start1]
      have "within_limit (unserialize_vec_values ws max' (4 * start) 0 d sub ?start1)"
        using vec_values_decode_children [of ws max' "4 * start" "[]" d sub ?start1] by simp
      from within_limit_wrap [OF this, of Vec] fits show ?thesis
        unfolding True unserialize_Vec [OF top] by (simp add: Let_def)
    qed
  qed
next
  case (RamenTypeRecord ty nl fs order)
  show ?case
  proof (cases "ty = RecordType")
    case False
    with RamenTypeRecord.prems show ?thesis
      by (intro not_composite_ok [OF _ _ _ _ _ len]) simp_all
  next
    case True
    let ?n = "length (filter (\<lambda>f. nullable (snd f)) fs)"
    let ?start1 = "start + roundUpWords ((?n + 7) div 8)"
    let ?out = "replicate (length fs) ([], None) :: (string \<times> Value option) list"
    from RamenTypeRecord.prems(3) have top: "\<not> (topLevel \<and> nl)" by simp
    from RamenTypeRecord.prems(1) have dist: "distinct order"
      and valid: "\<forall>i\<in>set order. i < length fs" by simp_all
    have "\<forall>start. within_limit (unserialize ws max' (snd f) start False)"
      if "f \<in> set fs" for f
    proof -
      from that RamenTypeRecord.prems(1,2) have "well_formed (snd f)" "no_ipv4 (snd f)"
        by simp_all
      moreover have "snd f \<in> Basic_BNFs.snds f" by (cases f) simp
      ultimately show ?thesis
        using RamenTypeRecord.IH [OF that] by auto
    qed
    with valid have kids: "\<forall>t\<in>set (wire_types fs order).
        \<forall>start. within_limit (unserialize ws max' t start False)"
      by (auto simp: wire_types_def)
    show ?thesis
    proof (cases "?start1 > max'")
      case over: True
      then show ?thesis
        unfolding True unserialize_Record [OF top] by (simp add: Let_def)
    next
      case fits: False
      then have "8 * (4 * start) + ?n \<le> 32 * max'"
        using nullmask_fits_bits [of start ?n max'] by simp
      with wire_nullable_le [OF dist valid]
      have "8 * (4 * start) + length (filter nullable ([] @ wire_types fs order)) \<le> 32 * max'"
        by simp
      from decode_children_ok [OF kids len this, of ?start1]
      have "within_limit (decode_children ws max' (4 * start) [] (wire_types fs order) ?start1)" .
      from within_limit_wrap [OF this, of "\<lambda>vs. place_fields fs order vs ?out"]
      have "within_limit (unserialize_record_fields ws max' (4 * start) 0 fs order ?out ?start1)"
        using record_fields_decode_children [OF valid, of ws max' "4 * start" "[]" ?out ?start1]
        by simp
      from within_limit_wrap [OF this, of Record] fits show ?thesis
        unfolding True unserialize_Record [OF top] by (simp add: Let_def)
    qed
  qed
qed

subsection \<open>A 128-bit load off its boundary\<close>

text \<open>
  With four words before the limit the guard of the 128-bit cases passes at every cursor;
  at a cursor that is not a multiple of four words the load itself is misaligned.
\<close>

lemma unserialize_u128_misaligned:
  "unserialize [1, 2, 3, 4, 5, 6, 7, 8] 8 (RamenTypeScalar U128Type False) 1 True
     = Inl MisalignedRead"
  by (simp add: unserialize.simps new_U128_def)

subsection \<open>Claims about the tuple codec\<close>

text \<open>
  Claim C2. \<^verbatim>\<open>unserialize\<close> should never read a word at or past \<^verbatim>\<open>max\<close>: a variant
  whose decoding needs words beyond the limit should give an \<^verbatim>\<open>Error\<close> value. Evaluated on
  an IPv4 schema with exactly one word left before the limit: the guard of the IPv4 case
  asks for one word (\<^verbatim>\<open>start + 1 > max\<close>), the constructor \<^verbatim>\<open>Ipv4::Ipv4\<close> then reads two,
  and the second read is at the limit. The 64-bit case next to it, whose constructor reads
  the same two words, asks for two and gives the \<^verbatim>\<open>Error\<close> value on the same input.
  Every other case keeps to the limit (\<open>unserialize_keeps_to_limit\<close>).
\<close>

theorem unserialize_ipv4_reads_past_max:
  "unserialize [5] 1 (RamenTypeScalar Ipv4Type False) 0 True = Inl ReadPastMax
   \<and> unserialize [5] 1 (RamenTypeScalar U64Type False) 0 True
       = Inr (Error ''Cannot unserialize u64'', 0)"
  by (simp add: unserialize.simps new_Ipv4_def read_u64_def read_word_def)

text \<open>
  Claim C6. Every composite should consume the same number of nullmask words for the same
  number of nullable children, that number of bits rounded up to whole words. Evaluated on
  a tuple, a vector and a record with five nullable children each and an all-zero
  nullmask (so every child is \<^verbatim>\<open>Null\<close> and the cursor after the call is the number of
  nullmask words): the record takes one word, the tuple and the vector take two. The record
  case turns the width into bytes before rounding (\<^verbatim>\<open>roundUpWords((nullmaskWidth + 7)/8)\<close>),
  the tuple and vector cases round the width itself (\<^verbatim>\<open>roundUpWords(nullmaskWidth)\<close>).
\<close>

theorem nullmask_words_differ_between_composites:
  "unserialize [0, 0] 2
     (RamenTypeTuple TupleType False (map snd five_nullable)) 0 True
     = Inr (Tuple [Null, Null, Null, Null, Null], 2)
   \<and> unserialize [0, 0] 2
     (RamenTypeVec VecType False 5 (RamenTypeScalar U32Type True)) 0 True
     = Inr (Vec [Null, Null, Null, Null, Null], 2)
   \<and> unserialize [0, 0] 2
     (RamenTypeRecord RecordType False five_nullable [0, 1, 2, 3, 4]) 0 True
     = Inr (Record [(''a'', Some Null), (''b'', Some Null), (''c'', Some Null),
                    (''d'', Some Null), (''e'', Some Null)], 1)"
  by code_simp

text \<open>
  Claim C7, as stated: in every composite the nullmask bit of a nullable child is indexed by
  the child's position among the nullable children, so that with three nullable fields and
  the bits 1, 0, 1 the second field is \<^verbatim>\<open>Null\<close> and the first and third are decoded. It
  fails on a record whose serialization order does not keep the nullable fields in their
  declared order. The example record has the nullable fields \<open>a\<close>, \<open>b\<close>, \<open>c\<close> in this
  order and the serialization order 4, 2, 1, 0, 3, which visits \<open>b\<close> before \<open>a\<close>; with the
  nullmask byte 5 (bits 1, 0, 1) the first nullable field \<open>a\<close> is \<^verbatim>\<open>Null\<close> and the second,
  \<open>b\<close>, is decoded: the loop counts \<^verbatim>\<open>null_i\<close> along \<^verbatim>\<open>serOrder\<close>.
\<close>

theorem record_nullmask_follows_wire_order_counterexample:
  "unserialize [5, 11, 12, 13, 14, 15] 6
     (RamenTypeRecord RecordType False example_fields [4, 2, 1, 0, 3]) 0 True
   = Inr (Record [(''a'', Some Null), (''x'', Some (U32 13)), (''b'', Some (U32 12)),
                  (''c'', Some (U32 14)), (''y'', Some (U8 11))], 5)
   \<and> map fst example_fields = [''a'', ''x'', ''b'', ''c'', ''y'']
   \<and> map nullable example_types = [True, False, True, True, False]"
  by code_simp

text \<open>
  Claim C7, amended: \<^verbatim>\<open>unserialize\<close> on a tuple, a vector or a record node whose nullmask
  fits before the limit decodes the children as \<open>decode_children\<close> describes, taking the
  nullmask at the cursor: the children are visited in order (for a record in
  serialization order), the bit tested for a nullable child is the one indexed by the
  number of nullable children visited before it (children that are not nullable use no
  bit), a child whose bit is clear becomes \<^verbatim>\<open>Null\<close> and leaves the cursor where it is, and
  every other child is decoded at the cursor; a record stores each value at its logical
  index.
\<close>

theorem composite_nullmask_bit_positions:
  assumes "\<not> (topLevel \<and> nl)"
  shows
    "(start + roundUpWords (nullmaskWidth (RamenTypeTuple TupleType nl ts) topLevel) \<le> max' \<longrightarrow>
        unserialize ws max' (RamenTypeTuple TupleType nl ts) start topLevel
          = (case decode_children ws max' (4 * start) [] ts
                    (start + roundUpWords
                       (nullmaskWidth (RamenTypeTuple TupleType nl ts) topLevel)) of
               Inl f \<Rightarrow> Inl f
             | Inr (vs, s) \<Rightarrow> Inr (Tuple vs, s)))
     \<and> (start + roundUpWords (nullmaskWidth (RamenTypeVec VecType nl d sub) topLevel) \<le> max' \<longrightarrow>
        unserialize ws max' (RamenTypeVec VecType nl d sub) start topLevel
          = (case decode_children ws max' (4 * start) [] (replicate d sub)
                    (start + roundUpWords
                       (nullmaskWidth (RamenTypeVec VecType nl d sub) topLevel)) of
               Inl f \<Rightarrow> Inl f
             | Inr (vs, s) \<Rightarrow> Inr (Vec vs, s)))
     \<and> ((\<forall>i\<in>set serOrder. i < length fs)
          \<and> start + roundUpWords
               ((nullmaskWidth (RamenTypeRecord RecordType nl fs serOrder) topLevel + 7) div 8)
              \<le> max' \<longrightarrow>
        unserialize ws max' (RamenTypeRecord RecordType nl fs serOrder) start topLevel
          = (case decode_children ws max' (4 * start) [] (wire_types fs serOrder)
                    (start + roundUpWords
                       ((nullmaskWidth (RamenTypeRecord RecordType nl fs serOrder) topLevel + 7)
                          div 8)) of
               Inl f \<Rightarrow> Inl f
             | Inr (vs, s) \<Rightarrow>
                 Inr (Record (place_fields fs serOrder vs (replicate (length fs) ([], None))), s)))
     \<and> (nullable t \<and> bitSet ws max' nullmask (length (filter nullable earlier)) = Inr False \<longrightarrow>
        decode_children ws max' nullmask earlier (t # todo) cur
          = (case decode_children ws max' nullmask (earlier @ [t]) todo cur of
               Inl f \<Rightarrow> Inl f
             | Inr (vs, s) \<Rightarrow> Inr (Null # vs, s)))"
proof -
  let ?st = "start + roundUpWords (length (filter nullable ts))"
  let ?sv = "start + roundUpWords (if nullable sub then d else 0)"
  let ?sr = "start + roundUpWords ((length (filter (\<lambda>f. nullable (snd f)) fs) + 7) div 8)"
  let ?out = "replicate (length fs) ([], None) :: (string \<times> Value option) list"
  have tup: "?st \<le> max' \<longrightarrow>
      unserialize ws max' (RamenTypeTuple TupleType nl ts) start topLevel
        = (case decode_children ws max' (4 * start) [] ts ?st of
             Inl f \<Rightarrow> Inl f
           | Inr (vs, s) \<Rightarrow> Inr (Tuple vs, s))"
    using tuple_fields_decode_children [of ws max' "4 * start" "[]" ts ?st]
    unfolding unserialize_Tuple [OF assms] by (simp add: Let_def)
  have vecl: "?sv \<le> max' \<longrightarrow>
      unserialize ws max' (RamenTypeVec VecType nl d sub) start topLevel
        = (case decode_children ws max' (4 * start) [] (replicate d sub) ?sv of
             Inl f \<Rightarrow> Inl f
           | Inr (vs, s) \<Rightarrow> Inr (Vec vs, s))"
    using vec_values_decode_children [of ws max' "4 * start" "[]" d sub ?sv]
    unfolding unserialize_Vec [OF assms] by (simp add: Let_def)
  have recl: "(\<forall>i\<in>set serOrder. i < length fs) \<and> ?sr \<le> max' \<longrightarrow>
      unserialize ws max' (RamenTypeRecord RecordType nl fs serOrder) start topLevel
        = (case decode_children ws max' (4 * start) [] (wire_types fs serOrder) ?sr of
             Inl f \<Rightarrow> Inl f
           | Inr (vs, s) \<Rightarrow> Inr (Record (place_fields fs serOrder vs ?out), s))"
  proof (intro impI, elim conjE)
    assume valid: "\<forall>i\<in>set serOrder. i < length fs" and fits: "?sr \<le> max'"
    have "unserialize_record_fields ws max' (4 * start) 0 fs serOrder ?out ?sr
        = (case decode_children ws max' (4 * start) [] (wire_types fs serOrder) ?sr of
             Inl f \<Rightarrow> Inl f
           | Inr (vs, s) \<Rightarrow> Inr (place_fields fs serOrder vs ?out, s))"
      using record_fields_decode_children [OF valid, of ws max' "4 * start" "[]" ?out ?sr]
      by simp
    with fits show "unserialize ws max' (RamenTypeRecord RecordType nl fs serOrder) start topLevel
        = (case decode_children ws max' (4 * start) [] (wire_types fs serOrder) ?sr of
             Inl f \<Rightarrow> Inl f
           | Inr (vs, s) \<Rightarrow> Inr (Record (place_fields fs serOrder vs ?out), s))"
      unfolding unserialize_Record [OF assms]
      by (simp add: Let_def split: sum.splits prod.splits)
  qed
  have clr: "nullable t \<and> bitSet ws max' nullmask (length (filter nullable earlier)) = Inr False
      \<longrightarrow> decode_children ws max' nullmask earlier (t # todo) cur
          = (case decode_children ws max' nullmask (earlier @ [t]) todo cur of
               Inl f \<Rightarrow> Inl f
             | Inr (vs, s) \<Rightarrow> Inr (Null # vs, s))"
    by simp
  from tup vecl recl clr show ?thesis by simp
qed

text \<open>
  With three nullable children and the nullmask bits 1, 0, 1 (the byte 5), the second
  nullable child visited is \<^verbatim>\<open>Null\<close> and the first and third are decoded, wherever the
  children that are not nullable stand: on two tuples, on a vector, and on the record in
  its declared order.
\<close>

theorem composite_nullmask_bit_positions_witness:
  "\<not> (True \<and> False)
   \<and> 0 + roundUpWords (nullmaskWidth (RamenTypeTuple TupleType False example_types) True) \<le> 6
   \<and> unserialize [5, 11, 12, 13, 14, 15] 6 (RamenTypeTuple TupleType False example_types) 0 True
     = Inr (Tuple [U32 11, U32 12, Null, U32 13, U8 14], 5)
   \<and> 0 + roundUpWords
        (nullmaskWidth (RamenTypeTuple TupleType False example_types_shifted) True) \<le> 6
   \<and> unserialize [5, 11, 12, 13, 14, 15] 6
        (RamenTypeTuple TupleType False example_types_shifted) 0 True
     = Inr (Tuple [U32 11, U8 12, U32 13, Null, U32 14], 5)
   \<and> 0 + roundUpWords
        (nullmaskWidth (RamenTypeVec VecType False 3 (RamenTypeScalar U32Type True)) True) \<le> 6
   \<and> unserialize [5, 11, 12, 13, 14, 15] 6
        (RamenTypeVec VecType False 3 (RamenTypeScalar U32Type True)) 0 True
     = Inr (Vec [U32 11, Null, U32 12], 3)
   \<and> list_all (\<lambda>i. i < length example_fields) [0, 1, 2, 3, 4]
   \<and> 0 + roundUpWords
        ((nullmaskWidth (RamenTypeRecord RecordType False example_fields [0, 1, 2, 3, 4]) True
          + 7) div 8) \<le> 6
   \<and> unserialize [5, 11, 12, 13, 14, 15] 6
        (RamenTypeRecord RecordType False example_fields [0, 1, 2, 3, 4]) 0 True
     = Inr (Record [(''a'', Some (U32 11)), (''x'', Some (U32 12)), (''b'', Some Null),
                    (''c'', Some (U32 13)), (''y'', Some (U8 14))], 5)
   \<and> nullable (RamenTypeScalar U32Type True)
   \<and> bitSet [5, 11, 12, 13, 14, 15] 6 0 (length (filter nullable [RamenTypeScalar U32Type True]))
       = Inr False
   \<and> decode_children [5, 11, 12, 13, 14, 15] 6 0 [RamenTypeScalar U32Type True]
        [RamenTypeScalar U32Type True, RamenTypeScalar U32Type True] 2
     = Inr ([Null, U32 12], 3)"
proof -
  let ?ws = "[5, 11, 12, 13, 14, 15] :: u32 list"
  let ?n = "RamenTypeScalar U32Type True"
  have top: "\<not> (True \<and> False)" by simp
  have f1: "0 + roundUpWords (nullmaskWidth (RamenTypeTuple TupleType False example_types) True) \<le> 6"
    by code_simp
  have f2: "0 + roundUpWords
      (nullmaskWidth (RamenTypeTuple TupleType False example_types_shifted) True) \<le> 6"
    by code_simp
  have f3: "0 + roundUpWords (nullmaskWidth (RamenTypeVec VecType False 3 ?n) True) \<le> 6"
    by code_simp
  have f4: "0 + roundUpWords
      ((nullmaskWidth (RamenTypeRecord RecordType False example_fields [0, 1, 2, 3, 4]) True
        + 7) div 8) \<le> 6"
    by code_simp
  have valid: "\<forall>i\<in>set [0, 1, 2, 3, 4]. i < length example_fields"
    by (simp add: example_fields_def)
  have valid': "list_all (\<lambda>i. i < length example_fields) [0, 1, 2, 3, 4]"
    by (simp add: example_fields_def)
  have d1: "(case decode_children ?ws 6 (4 * 0) [] example_types
               (0 + roundUpWords (nullmaskWidth (RamenTypeTuple TupleType False example_types) True)) of
             Inl f \<Rightarrow> Inl f | Inr (vs, s) \<Rightarrow> Inr (Tuple vs, s))
      = Inr (Tuple [U32 11, U32 12, Null, U32 13, U8 14], 5)"
    by code_simp
  have d2: "(case decode_children ?ws 6 (4 * 0) [] example_types_shifted
               (0 + roundUpWords
                  (nullmaskWidth (RamenTypeTuple TupleType False example_types_shifted) True)) of
             Inl f \<Rightarrow> Inl f | Inr (vs, s) \<Rightarrow> Inr (Tuple vs, s))
      = Inr (Tuple [U32 11, U8 12, U32 13, Null, U32 14], 5)"
    by code_simp
  have d3: "(case decode_children ?ws 6 (4 * 0) [] (replicate 3 ?n)
               (0 + roundUpWords (nullmaskWidth (RamenTypeVec VecType False 3 ?n) True)) of
             Inl f \<Rightarrow> Inl f | Inr (vs, s) \<Rightarrow> Inr (Vec vs, s))
      = Inr (Vec [U32 11, Null, U32 12], 3)"
    by code_simp
  have d4: "(case decode_children ?ws 6 (4 * 0) [] (wire_types example_fields [0, 1, 2, 3, 4])
               (0 + roundUpWords
                  ((nullmaskWidth (RamenTypeRecord RecordType False example_fields [0, 1, 2, 3, 4])
                      True + 7) div 8)) of
             Inl f \<Rightarrow> Inl f
           | Inr (vs, s) \<Rightarrow>
               Inr (Record (place_fields example_fields [0, 1, 2, 3, 4] vs
                              (replicate (length example_fields) ([], None))), s))
      = Inr (Record [(''a'', Some (U32 11)), (''x'', Some (U32 12)), (''b'', Some Null),
                     (''c'', Some (U32 13)), (''y'', Some (U8 14))], 5)"
    by code_simp
  have bit: "bitSet ?ws 6 0 (length (filter nullable [?n])) = Inr False"
    by code_simp
  have d5: "decode_children ?ws 6 0 ([?n] @ [?n]) [?n] 2 = Inr ([U32 12], 3)"
    by code_simp
  note thm1 = composite_nullmask_bit_positions
      [OF top, of 0 example_types 6 ?ws 3 ?n "[0, 1, 2, 3, 4]" example_fields
          ?n 0 "[?n]" "[?n]" 2]
  from thm1 f1 d1 have a:
    "unserialize ?ws 6 (RamenTypeTuple TupleType False example_types) 0 True
      = Inr (Tuple [U32 11, U32 12, Null, U32 13, U8 14], 5)"
    by (simp only:)
  from thm1 f3 d3 have c:
    "unserialize ?ws 6 (RamenTypeVec VecType False 3 ?n) 0 True
      = Inr (Vec [U32 11, Null, U32 12], 3)"
    by (simp only:)
  from thm1 valid f4 d4 have d:
    "unserialize ?ws 6 (RamenTypeRecord RecordType False example_fields [0, 1, 2, 3, 4]) 0 True
      = Inr (Record [(''a'', Some (U32 11)), (''x'', Some (U32 12)), (''b'', Some Null),
                     (''c'', Some (U32 13)), (''y'', Some (U8 14))], 5)"
    by (simp only:)
  from thm1 bit d5 have e:
    "decode_children ?ws 6 0 [?n] [?n, ?n] 2 = Inr ([Null, U32 12], 3)"
    by simp
  from composite_nullmask_bit_positions [OF top, of 0 example_types_shifted 6 ?ws] f2 d2
  have b: "unserialize ?ws 6 (RamenTypeTuple TupleType False example_types_shifted) 0 True
      = Inr (Tuple [U32 11, U8 12, U32 13, Null, U32 14], 5)"
    by (simp only:)
  have nn: "nullable ?n" by simp
  from top f1 a f2 b f3 c valid' f4 d nn bit e show ?thesis
    by blast
qed

text \<open>
  Claim C8. For a record schema whose serialization order is a permutation of the field
  indices: whenever \<^verbatim>\<open>unserialize\<close> returns a \<^verbatim>\<open>Record\<close>, the children were decoded from the
  wire in serialization order (the values \<open>vs\<close>, each decoded at the cursor the one before
  it left), the \<open>k\<close>-th of them is stored at the logical index \<open>serOrder ! k\<close> under the
  name the schema gives that field, and so the names of the output are the names of the
  schema in declared order.
\<close>

theorem record_fields_in_logical_order:
  assumes perm: "distinct serOrder" "set serOrder = {..<length fs}"
    and top: "\<not> (topLevel \<and> nl)"
    and res: "unserialize ws max' (RamenTypeRecord RecordType nl fs serOrder) start topLevel
                = Inr (Record fieldValues, s)"
  shows "map fst fieldValues = map fst fs
    \<and> (\<exists>vs. decode_children ws max' (4 * start) [] (wire_types fs serOrder)
               (start + roundUpWords
                  ((nullmaskWidth (RamenTypeRecord RecordType nl fs serOrder) topLevel + 7) div 8))
             = Inr (vs, s)
         \<and> length vs = length serOrder
         \<and> (\<forall>k<length serOrder.
               fieldValues ! (serOrder ! k) = (fst (fs ! (serOrder ! k)), Some (vs ! k))))"
proof -
  let ?start1 = "start + roundUpWords ((length (filter (\<lambda>f. nullable (snd f)) fs) + 7) div 8)"
  let ?out = "replicate (length fs) ([], None) :: (string \<times> Value option) list"
  have valid: "\<forall>i\<in>set serOrder. i < length fs" using perm(2) by simp
  have loop: "unserialize_record_fields ws max' (4 * start) 0 fs serOrder ?out ?start1
     = (case decode_children ws max' (4 * start) [] (wire_types fs serOrder) ?start1 of
          Inl f \<Rightarrow> Inl f
        | Inr (vs, s) \<Rightarrow> Inr (place_fields fs serOrder vs ?out, s))"
    using record_fields_decode_children [OF valid, of ws max' "4 * start" "[]" ?out ?start1]
    by simp
  from res have "unserialize_record_fields ws max' (4 * start) 0 fs serOrder ?out ?start1
      = Inr (fieldValues, s)"
    unfolding unserialize_Record [OF top]
    by (auto simp: Let_def split: if_splits sum.splits prod.splits)
  then obtain vs where
    dec: "decode_children ws max' (4 * start) [] (wire_types fs serOrder) ?start1 = Inr (vs, s)"
    and fv: "fieldValues = place_fields fs serOrder vs ?out"
    unfolding loop by (auto split: sum.splits prod.splits)
  have len: "length vs = length serOrder"
    using decode_children_length [OF dec] by (simp add: wire_types_def)
  have names: "map fst fieldValues = map fst fs"
    unfolding fv using perm len by (intro place_fields_names) simp_all
  have "\<forall>i\<in>set serOrder. i < length ?out" using valid by simp
  then have placed: "\<forall>k<length serOrder.
      fieldValues ! (serOrder ! k) = (fst (fs ! (serOrder ! k)), Some (vs ! k))"
    unfolding fv using place_fields_nth [OF perm(1) len] by blast
  from names dec len placed show ?thesis by auto
qed

theorem record_fields_in_logical_order_witness:
  "distinct [4, 2, 1, 0, 3::nat]
   \<and> set [4, 2, 1, 0, 3] = {..<length example_fields}
   \<and> \<not> (True \<and> False)
   \<and> unserialize [5, 11, 12, 13, 14, 15] 6
        (RamenTypeRecord RecordType False example_fields [4, 2, 1, 0, 3]) 0 True
      = Inr (Record [(''a'', Some Null), (''x'', Some (U32 13)), (''b'', Some (U32 12)),
                     (''c'', Some (U32 14)), (''y'', Some (U8 11))], 5)
   \<and> map fst [(''a'', Some Null), (''x'', Some (U32 13)), (''b'', Some (U32 12)),
               (''c'', Some (U32 14)), (''y'', Some (U8 11))]
      = map fst example_fields"
proof -
  have h1: "distinct [4, 2, 1, 0, 3::nat]" by simp
  have h2: "set [4, 2, 1, 0, 3] = {..<length example_fields}"
    by (auto simp: example_fields_def)
  have h3: "\<not> (True \<and> False)" by simp
  have h4: "unserialize [5, 11, 12, 13, 14, 15] 6
        (RamenTypeRecord RecordType False example_fields [4, 2, 1, 0, 3]) 0 True
      = Inr (Record [(''a'', Some Null), (''x'', Some (U32 13)), (''b'', Some (U32 12)),
                     (''c'', Some (U32 14)), (''y'', Some (U8 11))], 5)"
    by code_simp
  from record_fields_in_logical_order [OF h1 h2 h3 h4] have
    "map fst [(''a'', Some Null), (''x'', Some (U32 13)), (''b'', Some (U32 12)),
              (''c'', Some (U32 14)), (''y'', Some (U8 11))]
      = map fst example_fields"
    by blast
  with h1 h2 h3 h4 show ?thesis by blast
qed

text \<open>
  Claim C9, as stated: a float-class value takes one word. The \<^verbatim>\<open>FloatType\<close> case asks for
  two words and \<^verbatim>\<open>Float::Float\<close> copies a \<^verbatim>\<open>double\<close> and advances the cursor by two: on
  two words the cursor ends at 2, not at 1, and with one word before the limit the result
  is an \<^verbatim>\<open>Error\<close> value.
\<close>

theorem float_takes_two_words_counterexample:
  "map_sum id snd (unserialize [5, 6] 2 (RamenTypeScalar FloatType False) 0 True) \<noteq> Inr (0 + 1)
   \<and> unserialize [5, 6] 2 (RamenTypeScalar FloatType False) 0 True
       = Inr (Float (push_bit 32 6 OR 5), 0 + 2)
   \<and> unserialize [5, 6] 1 (RamenTypeScalar FloatType False) 0 True
       = Inr (Error ''Cannot unserialize float'', 0)"
  by (simp add: unserialize.simps new_Float_def read_u64_def read_word_def)

text \<open>
  Claim C9, amended: when the words it needs lie before the limit, a scalar decode
  consumes a word count fixed by its width class: one word for booleans and the integers
  of 8, 16 and 32 bits, two words for floats, 64-bit integers, Ethernet and IPv4 addresses,
  four words for 128-bit integers and IPv6 addresses read at a cursor on a 16-byte
  boundary; the value has the tag of the schema. A string consumes its length word and its
  byte length rounded up to whole words, and holds that many bytes. What a 128-bit load
  does at a cursor off its boundary is left out: it is undefined in the source.
\<close>

theorem scalar_word_counts:
  assumes "\<not> (topLevel \<and> nullable t)" "max' \<le> length ws"
  shows "(scalar_words (type t) = Some k \<and> start + k \<le> max'
            \<and> (k = 4 \<longrightarrow> start mod 4 = 0) \<longrightarrow>
            (\<exists>v. unserialize ws max' t start topLevel = Inr (v, start + k)
                  \<and> valueType v = type t))
       \<and> (type t = StringType \<and> start < max'
            \<and> start + 1 + roundUpWords (unat (ws ! start)) \<le> max' \<longrightarrow>
            (\<exists>bs. unserialize ws max' t start topLevel
                     = Inr (String bs, start + 1 + roundUpWords (unat (ws ! start)))
                   \<and> length bs = unat (ws ! start)))"
proof (intro conjI impI)
  assume "scalar_words (type t) = Some k \<and> start + k \<le> max'
      \<and> (k = 4 \<longrightarrow> start mod 4 = 0)"
  then have h: "scalar_words (type t) = Some k" "start + k \<le> max'"
      "k = 4 \<longrightarrow> start mod 4 = 0"
    by simp_all
  from scalar_decode_ok [OF h(1) assms(1) h(2) assms(2) h(3)]
  show "\<exists>v. unserialize ws max' t start topLevel = Inr (v, start + k)
          \<and> valueType v = type t" .
next
  assume "type t = StringType \<and> start < max'
      \<and> start + 1 + roundUpWords (unat (ws ! start)) \<le> max'"
  then have h: "type t = StringType" "start < max'"
      "start + 1 + roundUpWords (unat (ws ! start)) \<le> max'"
    by simp_all
  from string_decode_ok [OF h(1) assms(1) h(2) assms(2) h(3)]
  show "\<exists>bs. unserialize ws max' t start topLevel
            = Inr (String bs, start + 1 + roundUpWords (unat (ws ! start)))
          \<and> length bs = unat (ws ! start)" .
qed

theorem scalar_word_counts_witness:
  "\<not> (True \<and> nullable (RamenTypeScalar Ipv4Type False))
   \<and> (2::nat) \<le> length [5, 6::u32]
   \<and> scalar_words (type (RamenTypeScalar Ipv4Type False)) = Some 2
   \<and> (0::nat) + 2 \<le> 2
   \<and> (\<exists>v. unserialize [5, 6] 2 (RamenTypeScalar Ipv4Type False) 0 True = Inr (v, 0 + 2)
           \<and> valueType v = Ipv4Type)
   \<and> \<not> (True \<and> nullable (RamenTypeScalar StringType False))
   \<and> (3::nat) \<le> length [5, 0x64636261, 0x65::u32]
   \<and> type (RamenTypeScalar StringType False) = StringType
   \<and> (0::nat) < 3
   \<and> 0 + 1 + roundUpWords (unat ([5, 0x64636261, 0x65::u32] ! 0)) \<le> 3
   \<and> (\<exists>bs. unserialize [5, 0x64636261, 0x65] 3 (RamenTypeScalar StringType False) 0 True
              = Inr (String bs, 0 + 1 + roundUpWords (unat ([5, 0x64636261, 0x65::u32] ! 0)))
            \<and> length bs = unat ([5, 0x64636261, 0x65::u32] ! 0))
   \<and> \<not> (True \<and> nullable (RamenTypeScalar U128Type False))
   \<and> (8::nat) \<le> length [1, 2, 3, 4, 5, 6, 7, 8::u32]
   \<and> scalar_words (type (RamenTypeScalar U128Type False)) = Some 4
   \<and> (4::nat) + 4 \<le> 8
   \<and> (4::nat) mod 4 = 0
   \<and> (\<exists>v. unserialize [1, 2, 3, 4, 5, 6, 7, 8] 8 (RamenTypeScalar U128Type False) 4 True
              = Inr (v, 4 + 4)
           \<and> valueType v = U128Type)"
proof -
  have a: "\<not> (True \<and> nullable (RamenTypeScalar Ipv4Type False))"
      "(2::nat) \<le> length [5, 6::u32]"
      "scalar_words (type (RamenTypeScalar Ipv4Type False)) = Some 2"
      "(0::nat) + 2 \<le> 2"
    by simp_all
  have b: "\<not> (True \<and> nullable (RamenTypeScalar StringType False))"
      "(3::nat) \<le> length [5, 0x64636261, 0x65::u32]"
      "type (RamenTypeScalar StringType False) = StringType"
      "(0::nat) < 3"
      "0 + 1 + roundUpWords (unat ([5, 0x64636261, 0x65::u32] ! 0)) \<le> 3"
    by (simp_all add: roundUpWords_div)
  from scalar_word_counts [OF a(1,2), of 2 0] a(3,4)
  have c: "\<exists>v. unserialize [5, 6] 2 (RamenTypeScalar Ipv4Type False) 0 True = Inr (v, 0 + 2)
           \<and> valueType v = Ipv4Type"
    by simp
  from scalar_word_counts [OF b(1,2), of 0 0] b(3,4,5)
  have d: "\<exists>bs. unserialize [5, 0x64636261, 0x65] 3 (RamenTypeScalar StringType False) 0 True
              = Inr (String bs, 0 + 1 + roundUpWords (unat ([5, 0x64636261, 0x65::u32] ! 0)))
            \<and> length bs = unat ([5, 0x64636261, 0x65::u32] ! 0)"
    by blast
  have e: "\<not> (True \<and> nullable (RamenTypeScalar U128Type False))"
      "(8::nat) \<le> length [1, 2, 3, 4, 5, 6, 7, 8::u32]"
      "scalar_words (type (RamenTypeScalar U128Type False)) = Some 4"
      "(4::nat) + 4 \<le> 8"
      "(4::nat) mod 4 = 0"
    by simp_all
  from scalar_word_counts [OF e(1,2), of 4 4] e(3,4,5)
  have f: "\<exists>v. unserialize [1, 2, 3, 4, 5, 6, 7, 8] 8 (RamenTypeScalar U128Type False) 4 True
              = Inr (v, 4 + 4)
           \<and> valueType v = U128Type"
    by simp
  from a b c d e f show ?thesis by blast
qed

text \<open>
  Claim C10. The equality of the base class compares the type tags and nothing else:
  \<open>v == w\<close> holds exactly when the tags of \<open>v\<close> and \<open>w\<close> are equal, \<open>v != w\<close> is its
  negation, and two values of the same variant with different payloads compare equal.
\<close>

theorem Value_eq_compares_tags_only:
  "(Value_eq v w \<longleftrightarrow> valueType v = valueType w)
   \<and> (Value_neq v w \<longleftrightarrow> \<not> Value_eq v w)
   \<and> Value_eq (U32 1) (U32 2)
   \<and> U32 1 \<noteq> U32 2"
  by (auto simp: Value_eq_def Value_neq_def)

end
